theory Spec2Isabelle
  imports Complex_Main "HOL-Library.Sublist" "HOL-Library.AList"
begin

section \<open>Python values as the bot receives them\<close>

text \<open>
  The upstream payload is decoded JSON, so every raw value is one of the shapes below.
  A dict is an association list in insertion order; lookups take the first binding of a
  key. Strings are character lists; the string operations below follow Python on ASCII
  text. A float carries its exact (finite) value as a rational.
\<close>

datatype pyval =
    PNone
  | PBool bool
  | PInt int
  | PFloat rat
  | PStr string
  | PList "pyval list"
  | PDict "(string \<times> pyval) list"

text \<open>Every exception the modelled code can meet; all of them derive from \<open>Exception\<close>.\<close>

datatype pyerror = AttributeError | TypeError | ValueError | KeyError | FetchError | SendError

text \<open>Sequencing of statements that may raise: the first exception wins.\<close>

fun ebind :: "pyerror + 'a \<Rightarrow> ('a \<Rightarrow> pyerror + 'b) \<Rightarrow> pyerror + 'b" where
  "ebind (Inl e) f = Inl e"
| "ebind (Inr v) f = f v"

text \<open>Truth value of an object, as \<open>or\<close>, \<open>not\<close> and \<open>if\<close> test it.\<close>

fun truthy :: "pyval \<Rightarrow> bool" where
  "truthy PNone = False"
| "truthy (PBool b) = b"
| "truthy (PInt i) = (i \<noteq> 0)"
| "truthy (PFloat q) = (q \<noteq> 0)"
| "truthy (PStr s) = (s \<noteq> [])"
| "truthy (PList xs) = (xs \<noteq> [])"
| "truthy (PDict kvs) = (kvs \<noteq> [])"

text \<open>\<open>a or b\<close>: the right operand is only evaluated (and can only raise) when \<open>a\<close> is falsy.\<close>

definition py_or :: "pyval \<Rightarrow> (pyerror + pyval) \<Rightarrow> pyerror + pyval" where
  "py_or a b = (if truthy a then Inr a else b)"

fun is_dict :: "pyval \<Rightarrow> bool" where
  "is_dict (PDict kvs) = True"
| "is_dict _ = False"

text \<open>\<open>obj.get(key, default)\<close>: only a dict has the method.\<close>

definition dget :: "(string \<times> pyval) list \<Rightarrow> string \<Rightarrow> pyval \<Rightarrow> pyval" where
  "dget kvs k d = (case map_of kvs k of None \<Rightarrow> d | Some v \<Rightarrow> v)"

fun py_get :: "pyval \<Rightarrow> string \<Rightarrow> pyval \<Rightarrow> pyerror + pyval" where
  "py_get (PDict kvs) k d = Inr (dget kvs k d)"
| "py_get _ k d = Inl AttributeError"

subsection \<open>Built-ins the code calls\<close>

text \<open>
  Two pieces of the platform are parameters of the model: \<open>strptime_timestamp\<close> stands for
  \<open>int(datetime.strptime(s, "%Y-%m-%d %H:%M:%S").timestamp())\<close>, which depends on the host's
  time zone (\<open>None\<close> when it raises), and \<open>repr_other\<close> is \<open>str()\<close> of floats, lists and
  dicts. Every theorem holds for every such runtime.
\<close>

record runtime =
  strptime_timestamp :: "string \<Rightarrow> int option"
  repr_other :: "pyval \<Rightarrow> string"

definition digit_char :: "nat \<Rightarrow> char" where
  "digit_char n = char_of (48 + n)"

function str_of_nat :: "nat \<Rightarrow> string" where
  "str_of_nat n = (if n < 10 then [digit_char n] else str_of_nat (n div 10) @ [digit_char (n mod 10)])"
  by pat_completeness auto
termination
  by (relation "measure (\<lambda>n. n)") auto

declare str_of_nat.simps [simp del]

definition str_of_int :: "int \<Rightarrow> string" where
  "str_of_int i = (if i < 0 then CHR ''-'' # str_of_nat (nat (- i)) else str_of_nat (nat i))"

text \<open>\<open>str(v)\<close>, which is what an f-string field \<open>{v}\<close> inserts.\<close>

fun py_str :: "runtime \<Rightarrow> pyval \<Rightarrow> string" where
  "py_str rt (PStr s) = s"
| "py_str rt (PInt i) = str_of_int i"
| "py_str rt (PBool b) = (if b then ''True'' else ''False'')"
| "py_str rt PNone = ''None''"
| "py_str rt v = repr_other rt v"

text \<open>
  \<open>int(s)\<close> on a string: surrounding whitespace is stripped, then an optional sign and
  decimal digits, where single underscores may separate digits.
\<close>

definition is_space :: "char \<Rightarrow> bool" where
  "is_space c = (let n = (of_char c :: nat) in (9 \<le> n \<and> n \<le> 13) \<or> (28 \<le> n \<and> n \<le> 32))"

definition strip :: "string \<Rightarrow> string" where
  "strip s = rev (dropWhile is_space (rev (dropWhile is_space s)))"

definition digit_val :: "char \<Rightarrow> nat option" where
  "digit_val c = (let n = (of_char c :: nat) in if 48 \<le> n \<and> n \<le> 57 then Some (n - 48) else None)"

fun parse_digits :: "bool \<Rightarrow> nat \<Rightarrow> string \<Rightarrow> nat option" where
  "parse_digits prev acc [] = (if prev then Some acc else None)"
| "parse_digits prev acc (c # cs) =
     (if c = CHR ''_'' then (if prev then parse_digits False acc cs else None)
      else (case digit_val c of
              None \<Rightarrow> None
            | Some d \<Rightarrow> parse_digits True (acc * 10 + d) cs))"

definition int_of_str :: "string \<Rightarrow> int option" where
  "int_of_str s =
     (case strip s of
        [] \<Rightarrow> None
      | c # cs \<Rightarrow>
          if c = CHR ''-'' then map_option (\<lambda>n. - int n) (parse_digits False 0 cs)
          else if c = CHR ''+'' then map_option int (parse_digits False 0 cs)
          else map_option int (parse_digits False 0 (c # cs)))"

definition trunc_rat :: "rat \<Rightarrow> int" where
  "trunc_rat q = (if 0 \<le> q then \<lfloor>q\<rfloor> else - \<lfloor>- q\<rfloor>)"

text \<open>\<open>int(v)\<close>.\<close>

fun py_int :: "pyval \<Rightarrow> pyerror + int" where
  "py_int (PInt i) = Inr i"
| "py_int (PBool b) = Inr (if b then 1 else 0)"
| "py_int (PFloat q) = Inr (trunc_rat q)"
| "py_int (PStr s) = (case int_of_str s of None \<Rightarrow> Inl ValueError | Some i \<Rightarrow> Inr i)"
| "py_int _ = Inl TypeError"

text \<open>\<open>isinstance(v, int)\<close>: \<open>bool\<close> is a subclass of \<open>int\<close>.\<close>

fun isinstance_int :: "pyval \<Rightarrow> bool" where
  "isinstance_int (PInt i) = True"
| "isinstance_int (PBool b) = True"
| "isinstance_int _ = False"

fun isinstance_str :: "pyval \<Rightarrow> bool" where
  "isinstance_str (PStr s) = True"
| "isinstance_str _ = False"

text \<open>\<open>s.lower()\<close>; a value that is not a string has no such method.\<close>

definition lower_char :: "char \<Rightarrow> char" where
  "lower_char c = (let n = (of_char c :: nat) in if 65 \<le> n \<and> n \<le> 90 then char_of (n + 32) else c)"

fun py_lower :: "pyval \<Rightarrow> pyerror + string" where
  "py_lower (PStr s) = Inr (map lower_char s)"
| "py_lower _ = Inl AttributeError"

section \<open>The API client: \<open>utils/vlr_api.py\<close>\<close>

text \<open>
  \<open>get_upcoming\<close> and \<open>get_live\<close> await \<open>_fetch_json\<close> and then extract the segment list
  with \<open>data.get("data", {}).get("segments", []) or []\<close>. The network call is the
  argument: either the decoded payload or the exception the fetch raised.
\<close>

definition get_upcoming :: "pyerror + pyval \<Rightarrow> pyerror + pyval" where
  "get_upcoming fetched =
     ebind fetched (\<lambda>data.
     ebind (py_get data ''data'' (PDict [])) (\<lambda>d.
     ebind (py_get d ''segments'' (PList [])) (\<lambda>segs.
     py_or segs (Inr (PList [])))))"

definition get_live :: "pyerror + pyval \<Rightarrow> pyerror + pyval" where
  "get_live fetched =
     ebind fetched (\<lambda>data.
     ebind (py_get data ''data'' (PDict [])) (\<lambda>d.
     ebind (py_get d ''segments'' (PList [])) (\<lambda>segs.
     py_or segs (Inr (PList [])))))"

text \<open>
  \<open>normalize_match\<close>, statement by statement. Each \<open>.get\<close> raises when its receiver is not
  a dict, and \<open>int(time_unix)\<close> raises on a value that is no number.
\<close>

definition normalize_match :: "runtime \<Rightarrow> pyval \<Rightarrow> pyerror + pyval" where
  "normalize_match rt m =
     ebind (py_get m ''team1'' (PDict [])) (\<lambda>t1.
     ebind (py_get t1 ''name'' PNone) (\<lambda>n1.
     ebind (py_or n1 (ebind (py_get m ''team_1'' (PStr [])) (\<lambda>a. py_or a (Inr (PStr []))))) (\<lambda>team1.
     ebind (py_get m ''team2'' (PDict [])) (\<lambda>t2.
     ebind (py_get t2 ''name'' PNone) (\<lambda>n2.
     ebind (py_or n2 (ebind (py_get m ''team_2'' (PStr [])) (\<lambda>a. py_or a (Inr (PStr []))))) (\<lambda>team2.
     ebind (py_get m ''tournament'' (PDict [])) (\<lambda>tr.
     ebind (py_get tr ''name'' PNone) (\<lambda>tn.
     ebind (py_or tn (ebind (py_get m ''event'' (PStr [])) (\<lambda>a. py_or a (Inr (PStr []))))) (\<lambda>event.
     ebind (py_get m ''status'' (PStr [])) (\<lambda>status.
     ebind (py_get m ''time_unix'' PNone) (\<lambda>tu1.
     ebind (py_or tu1 (ebind (py_get m ''unix_time'' PNone) (\<lambda>a. py_or a (Inr (PInt 0))))) (\<lambda>time_unix.
     ebind (py_get m ''match_id'' PNone) (\<lambda>mi1.
     ebind (py_or mi1 (ebind (py_get m ''id'' PNone) (\<lambda>a. py_or a (Inr (PStr []))))) (\<lambda>match_id.
     ebind (py_get m ''url'' PNone) (\<lambda>u1.
     ebind (py_or u1 (Inr (if truthy match_id
                           then PStr (''https://www.vlr.gg/'' @ py_str rt match_id)
                           else PStr []))) (\<lambda>url.
     ebind (py_get m ''score'' PNone) (\<lambda>sc1.
     ebind (py_or sc1 (py_get m ''maps'' (PList []))) (\<lambda>score.
     ebind (py_get m ''tournament'' (PDict [])) (\<lambda>tr2.
     ebind (py_get tr2 ''region'' PNone) (\<lambda>rg.
     ebind (py_or rg (ebind (py_get m ''region'' (PStr [])) (\<lambda>a. py_or a (Inr (PStr []))))) (\<lambda>region.
     ebind (if truthy time_unix then py_int time_unix else Inr 0) (\<lambda>t.
     Inr (PDict [(''team1'', team1), (''team2'', team2), (''event'', event), (''status'', status),
                 (''time_unix'', PInt t), (''match_id'', match_id), (''url'', url),
                 (''score'', score), (''region'', region)])))))))))))))))))))))))"

text \<open>
  \<open>filter_matches\<close>. The generator inside \<open>any\<close> is lazy: the fields are tried in the order
  event, team1, team2, region, and the first hit stops the scan. \<open>(f or "").lower()\<close> raises
  on a truthy field that is not a string.
\<close>

fun any_field :: "string \<Rightarrow> pyval list \<Rightarrow> pyerror + bool" where
  "any_field needle [] = Inr False"
| "any_field needle (f # fs) =
     ebind (py_or f (Inr (PStr []))) (\<lambda>g.
     ebind (py_lower g) (\<lambda>s.
     if sublist needle s then Inr True else any_field needle fs))"

definition match_ok :: "string \<Rightarrow> pyval \<Rightarrow> pyerror + bool" where
  "match_ok needle m =
     ebind (py_get m ''event'' (PStr [])) (\<lambda>f1.
     ebind (py_get m ''team1'' (PStr [])) (\<lambda>f2.
     ebind (py_get m ''team2'' (PStr [])) (\<lambda>f3.
     ebind (py_get m ''region'' (PStr [])) (\<lambda>f4.
     any_field needle [f1, f2, f3, f4]))))"

fun filter_ok :: "string \<Rightarrow> pyval list \<Rightarrow> pyerror + pyval list" where
  "filter_ok needle [] = Inr []"
| "filter_ok needle (m # ms) =
     ebind (match_ok needle m) (\<lambda>b.
     ebind (filter_ok needle ms) (\<lambda>r.
     Inr (if b then m # r else r)))"

definition filter_matches :: "pyval list \<Rightarrow> string \<Rightarrow> pyerror + pyval list" where
  "filter_matches matches needle = filter_ok (map lower_char needle) matches"

section \<open>The tracker: \<open>cogs/tracker.py\<close>\<close>

definition fmt_delta :: "int \<Rightarrow> string" where
  "fmt_delta seconds =
     (if seconds \<le> 0 then ''now''
      else let m0 = seconds div 60; h = m0 div 60; m = m0 mod 60
           in if h \<noteq> 0 then str_of_int h @ ''h '' @ str_of_int m @ ''m''
              else str_of_int m @ ''m'')"

text \<open>
  \<open>parse_unix\<close>: the \<open>try\<close> around \<open>strptime\<close> turns every exception into \<open>None\<close>;
  \<open>strptime\<close> raises TypeError on anything but a string.
\<close>

definition strptime_int :: "runtime \<Rightarrow> pyval \<Rightarrow> pyerror + int" where
  "strptime_int rt ts =
     (case ts of
        PStr s \<Rightarrow> (case strptime_timestamp rt s of None \<Rightarrow> Inl ValueError | Some t \<Rightarrow> Inr t)
      | _ \<Rightarrow> Inl TypeError)"

definition parse_unix :: "runtime \<Rightarrow> pyval \<Rightarrow> pyerror + pyval" where
  "parse_unix rt ts =
     (if ts = PNone then Inr PNone
      else if isinstance_int ts then Inr ts
      else (case strptime_int rt ts of
              Inr t \<Rightarrow> Inr (PInt t)
            | Inl e \<Rightarrow> Inr PNone))"

record embed =
  title :: string
  description :: string
  color :: int
  embed_fields :: "(string \<times> string \<times> bool) list"
  footer :: string

definition middle_dot :: string where
  "middle_dot = [CHR 0x20, CHR 0xC2, CHR 0xB7, CHR 0x20]"

fun join :: "string \<Rightarrow> string list \<Rightarrow> string" where
  "join sep [] = []"
| "join sep [x] = x"
| "join sep (x # y # ys) = x @ sep @ join sep (y # ys)"

text \<open>\<open>t if isinstance(t, str) else (t or {}).get('name', '?')\<close>\<close>

definition embed_team :: "pyval \<Rightarrow> pyerror + pyval" where
  "embed_team t =
     (if isinstance_str t then Inr t
      else ebind (py_or t (Inr (PDict []))) (\<lambda>d. py_get d ''name'' (PStr ''?'')))"

text \<open>
  \<open>make_embed_from_match\<close>; \<open>now\<close> is the value of \<open>int(time.time())\<close> when the countdown
  field is built.
\<close>

definition make_embed_from_match :: "runtime \<Rightarrow> int \<Rightarrow> pyval \<Rightarrow> bool \<Rightarrow> pyerror + embed" where
  "make_embed_from_match rt now m live =
     ebind (py_get m ''team1'' PNone) (\<lambda>t1.
     ebind (py_get m ''team2'' PNone) (\<lambda>t2.
     ebind (embed_team t1) (\<lambda>team1.
     ebind (embed_team t2) (\<lambda>team2.
     ebind (py_get m ''event'' PNone) (\<lambda>e1.
     ebind (py_or e1 (py_get m ''match_event'' PNone)) (\<lambda>ev.
     ebind (py_get m ''region'' PNone) (\<lambda>rg.
     let desc_parts = (if truthy ev then [''**Event:** '' @ py_str rt ev] else [])
                    @ (if truthy rg then [''**Region:** '' @ py_str rt rg] else []);
         desc = (if desc_parts \<noteq> [] then join middle_dot desc_parts else '' '')
     in
     ebind (py_get m ''url'' PNone) (\<lambda>u1.
     ebind (py_or u1 (py_get m ''match_page'' PNone)) (\<lambda>url.
     let desc2 = (if truthy url then desc @ [CHR 0x0A] @ ''[Match page]('' @ py_str rt url @ '')'' else desc);
         emb = \<lparr>title = py_str rt team1 @ '' vs '' @ py_str rt team2, description = desc2,
                color = (if live then 0x5865F2 else 0x2ecc71), embed_fields = [],
                footer = ''Data via vlrggapi (unofficial)''\<rparr>
     in
     ebind (if live then py_get m ''score'' PNone else Inr PNone) (\<lambda>sc.
     if live \<and> truthy sc
     then Inr (emb\<lparr>embed_fields := [(''Score'', [CHR 0x60] @ py_str rt sc @ [CHR 0x60], False)]\<rparr>)
     else
       ebind (py_get m ''time_unix'' PNone) (\<lambda>tu0.
       ebind (if \<not> truthy tu0 then ebind (py_get m ''unix_timestamp'' PNone) (parse_unix rt)
              else Inr tu0) (\<lambda>tu.
       if truthy tu
       then ebind (py_int tu) (\<lambda>t. Inr (emb\<lparr>embed_fields := [(''Starts In'', fmt_delta (t - now), True)]\<rparr>))
       else Inr emb))))))))))))"

text \<open>
  The \<open>except\<close> branch of \<open>safe_normalize\<close>: the permissive decode, building \<open>nm\<close> key by
  key.
\<close>

definition safe_normalize_fallback :: "runtime \<Rightarrow> pyval \<Rightarrow> bool option \<Rightarrow> pyerror + pyval" where
  "safe_normalize_fallback rt m live_flag =
     ebind (py_get m ''team1'' PNone) (\<lambda>a1.
     ebind (py_or a1 (ebind (py_get m ''team_1'' PNone) (\<lambda>b. py_or b (Inr (PStr ''?''))))) (\<lambda>team1.
     ebind (py_get m ''team2'' PNone) (\<lambda>a2.
     ebind (py_or a2 (ebind (py_get m ''team_2'' PNone) (\<lambda>b. py_or b (Inr (PStr ''?''))))) (\<lambda>team2.
     ebind (py_get m ''event'' PNone) (\<lambda>a3.
     ebind (py_or a3 (ebind (py_get m ''match_event'' PNone) (\<lambda>b. py_or b (Inr (PStr []))))) (\<lambda>event.
     ebind (py_get m ''region'' PNone) (\<lambda>a4.
     ebind (py_or a4 (Inr (PStr []))) (\<lambda>region.
     ebind (py_get m ''url'' PNone) (\<lambda>a5.
     ebind (py_or a5 (ebind (py_get m ''match_page'' PNone) (\<lambda>b. py_or b (Inr (PStr []))))) (\<lambda>url.
     ebind (py_get m ''score1'' PNone) (\<lambda>s1.
     ebind (py_get m ''score2'' PNone) (\<lambda>s2.
     let nm5 = AList.update ''url'' url (AList.update ''region'' region (AList.update ''event'' event
                 (AList.update ''team2'' team2 (AList.update ''team1'' team1 []))));
         nm6 = (if s1 \<noteq> PNone \<and> s2 \<noteq> PNone
                then AList.update ''score'' (PStr (py_str rt s1 @ ''-'' @ py_str rt s2)) nm5
                else nm5)
     in
     ebind (py_get m ''time_unix'' PNone) (\<lambda>tu0.
     ebind (if \<not> truthy tu0 then ebind (py_get m ''unix_timestamp'' PNone) (parse_unix rt)
            else Inr tu0) (\<lambda>tu.
     let nm7 = (if truthy tu then AList.update ''time_unix'' tu nm6 else nm6);
         nm8 = (case live_flag of None \<Rightarrow> nm7 | Some b \<Rightarrow> AList.update ''live'' (PBool b) nm7)
     in Inr (PDict nm8)))))))))))))))"

text \<open>\<open>nm["live"] = live_flag\<close> on the strict result.\<close>

fun py_setitem :: "pyval \<Rightarrow> string \<Rightarrow> pyval \<Rightarrow> pyerror + pyval" where
  "py_setitem (PDict kvs) k v = Inr (PDict (AList.update k v kvs))"
| "py_setitem _ k v = Inl TypeError"

definition safe_normalize_strict :: "runtime \<Rightarrow> pyval \<Rightarrow> bool option \<Rightarrow> pyerror + pyval" where
  "safe_normalize_strict rt m live_flag =
     ebind (normalize_match rt m) (\<lambda>nm.
     case live_flag of
       None \<Rightarrow> Inr nm
     | Some b \<Rightarrow> py_setitem nm ''live'' (PBool b))"

text \<open>
  \<open>safe_normalize\<close>: \<open>PNone\<close> is Python's \<open>None\<close> (the record is dropped). The \<open>try\<close> body is
  \<open>safe_normalize_strict\<close>; any exception in it selects the \<open>except\<close> branch.
\<close>

definition safe_normalize :: "runtime \<Rightarrow> pyval \<Rightarrow> bool option \<Rightarrow> pyerror + pyval" where
  "safe_normalize rt m live_flag =
     (if \<not> is_dict m then Inr PNone
      else (case safe_normalize_strict rt m live_flag of
              Inr nm \<Rightarrow> Inr nm
            | Inl e \<Rightarrow> safe_normalize_fallback rt m live_flag))"

section \<open>The alert scheduler: \<open>Tracker.announce_loop\<close>\<close>

text \<open>
  \<open>_announced_ids\<close> is a Python set: membership goes through \<open>hash\<close> and \<open>==\<close>, so lists and
  dicts raise TypeError and the numbers \<open>True\<close>, \<open>1\<close> and \<open>1.0\<close> are one element.
\<close>

datatype pykey = KNone | KNum rat | KStr string

fun py_key :: "pyval \<Rightarrow> pyerror + pykey" where
  "py_key PNone = Inr KNone"
| "py_key (PBool b) = Inr (KNum (if b then 1 else 0))"
| "py_key (PInt i) = Inr (KNum (of_int i))"
| "py_key (PFloat q) = Inr (KNum q)"
| "py_key (PStr s) = Inr (KStr s)"
| "py_key _ = Inl TypeError"

text \<open>\<open>obj[key]\<close> with a string key.\<close>

fun py_getitem :: "pyval \<Rightarrow> string \<Rightarrow> pyerror + pyval" where
  "py_getitem (PDict kvs) k = (case map_of kvs k of None \<Rightarrow> Inl KeyError | Some v \<Rightarrow> Inr v)"
| "py_getitem _ k = Inl TypeError"

text \<open>\<open>for m in raw\<close>: a list yields its items, a dict its keys, a string its characters.\<close>

fun py_iter :: "pyval \<Rightarrow> pyerror + pyval list" where
  "py_iter (PList xs) = Inr xs"
| "py_iter (PDict kvs) = Inr (map (\<lambda>kv. PStr (fst kv)) kvs)"
| "py_iter (PStr s) = Inr (map (\<lambda>c. PStr [c]) s)"
| "py_iter _ = Inl TypeError"

text \<open>
  The scheduler's state: the announced ids, and the alert channel as the list of messages
  sent so far, each embed together with the normalized match it was built from.
\<close>

record sched =
  announced_ids :: "pykey set"
  channel_log :: "(pyval \<times> embed) list"

text \<open>
  One pass of the loop body for the raw record \<open>m\<close>. \<open>lead\<close> is \<open>ALERT_LEAD_MINUTES\<close>,
  \<open>deliver\<close> tells whether \<open>ch.send\<close> succeeds for an embed, \<open>now\<close> is \<open>int(time.time())\<close>.
  An exception leaves the state as it was before this record.
\<close>

definition announce_one ::
  "runtime \<Rightarrow> int \<Rightarrow> (embed \<Rightarrow> bool) \<Rightarrow> int \<Rightarrow> sched \<Rightarrow> pyval \<Rightarrow> pyerror + sched" where
  "announce_one rt lead deliver now st m =
     ebind (safe_normalize rt m None) (\<lambda>nm.
     if \<not> truthy nm then Inr st
     else
       ebind (py_get nm ''time_unix'' PNone) (\<lambda>tu.
       if \<not> truthy tu then Inr st
       else
         ebind (py_getitem nm ''time_unix'') (\<lambda>tv.
         ebind (py_int tv) (\<lambda>t.
         let seconds = t - now in
         if 0 \<le> seconds \<and> seconds \<le> lead * 60
         then
           ebind (py_get nm ''match_id'' PNone) (\<lambda>mid.
           ebind (if truthy mid then ebind (py_key mid) (\<lambda>k. Inr (k \<in> announced_ids st))
                  else Inr False) (\<lambda>seen.
           if seen then Inr st
           else
             ebind (make_embed_from_match rt now nm False) (\<lambda>emb.
             if \<not> deliver emb then Inl SendError
             else
               let st1 = st\<lparr>channel_log := channel_log st @ [(nm, emb)]\<rparr> in
               if truthy mid
               then ebind (py_key mid) (\<lambda>k. Inr (st1\<lparr>announced_ids := insert k (announced_ids st1)\<rparr>))
               else Inr st1)))
         else Inr st))))"

text \<open>The \<open>for\<close> loop: the first exception ends it, keeping what was done before.\<close>

fun announce_records ::
  "runtime \<Rightarrow> int \<Rightarrow> (embed \<Rightarrow> bool) \<Rightarrow> int \<Rightarrow> sched \<Rightarrow> pyval list \<Rightarrow> sched \<times> pyerror option" where
  "announce_records rt lead deliver now st [] = (st, None)"
| "announce_records rt lead deliver now st (m # ms) =
     (case announce_one rt lead deliver now st m of
        Inl e \<Rightarrow> (st, Some e)
      | Inr st1 \<Rightarrow> announce_records rt lead deliver now st1 ms)"

text \<open>
  What one tick meets: whether \<open>ALERT_CHANNEL_ID\<close>, the session and the channel resolve,
  the outcome of the fetch, the clock, and the outcome of each \<open>ch.send\<close>.
\<close>

record tick =
  channel_ready :: bool
  fetched :: "pyerror + pyval"
  clock :: int
  deliver :: "embed \<Rightarrow> bool"

text \<open>
  The \<open>try\<close> body of \<open>announce_loop\<close>: \<open>raw = await get_upcoming(self.session) or []\<close> and
  the items the \<open>for\<close> loop iterates over, then the loop. The second component of the
  result is the exception that \<open>except Exception: pass\<close> swallows, if any.
\<close>

definition upcoming_records :: "pyerror + pyval \<Rightarrow> pyerror + pyval list" where
  "upcoming_records f =
     ebind (get_upcoming f) (\<lambda>r.
     ebind (py_or r (Inr (PList []))) py_iter)"

definition announce_try :: "runtime \<Rightarrow> int \<Rightarrow> tick \<Rightarrow> sched \<Rightarrow> sched \<times> pyerror option" where
  "announce_try rt lead tk st =
     (case upcoming_records (fetched tk) of
        Inl e \<Rightarrow> (st, Some e)
      | Inr raw \<Rightarrow> announce_records rt lead (deliver tk) (clock tk) st raw)"

definition announce_loop :: "runtime \<Rightarrow> int \<Rightarrow> tick \<Rightarrow> sched \<Rightarrow> sched" where
  "announce_loop rt lead tk st =
     (if \<not> channel_ready tk then st else fst (announce_try rt lead tk st))"

text \<open>Successive ticks of the scheduler.\<close>

fun run_ticks :: "runtime \<Rightarrow> int \<Rightarrow> tick list \<Rightarrow> sched \<Rightarrow> sched" where
  "run_ticks rt lead [] st = st"
| "run_ticks rt lead (tk # tks) st = run_ticks rt lead tks (announce_loop rt lead tk st)"

section \<open>Vocabulary of the statements\<close>

text \<open>\<open>a or b\<close> for operands that cannot raise.\<close>

definition or_val :: "pyval \<Rightarrow> pyval \<Rightarrow> pyval" where
  "or_val a b = (if truthy a then a else b)"

text \<open>The nested name \<open>m.get(k, {}).get("name")\<close> when the strict decode gets that far.\<close>

definition strict_name :: "(string \<times> pyval) list \<Rightarrow> string \<Rightarrow> pyval" where
  "strict_name d k = (case dget d k (PDict []) of PDict t \<Rightarrow> dget t ''name'' PNone | _ \<Rightarrow> PNone)"

text \<open>
  A runtime for the concrete evaluations below: a host on UTC that is asked about a single
  timestamp, and that is never asked to print a float, a list or a dict.
\<close>

definition sample_runtime :: runtime where
  "sample_runtime =
     \<lparr>strptime_timestamp = (\<lambda>s. if s = ''1970-01-01 00:00:10'' then Some 10 else None),
      repr_other = (\<lambda>v. ''<object>'')\<rparr>"

text \<open>
  The canonical field set of a NormalizedMatch, under the names the code gives the fields:
  matchId is \<open>match_id\<close>, timeUnix is \<open>time_unix\<close>.
\<close>

definition canonical_fields :: "string list" where
  "canonical_fields =
     [''team1'', ''team2'', ''event'', ''region'', ''url'', ''match_id'', ''time_unix'', ''score'']"

definition has_canonical_fields :: "pyval \<Rightarrow> bool" where
  "has_canonical_fields v =
     (case v of PDict kvs \<Rightarrow> list_all (\<lambda>k. map_of kvs k \<noteq> None) canonical_fields | _ \<Rightarrow> False)"

text \<open>The value \<open>parse_unix\<close> returns.\<close>

definition parse_unix_val :: "runtime \<Rightarrow> pyval \<Rightarrow> pyval" where
  "parse_unix_val rt ts =
     (if ts = PNone then PNone
      else if isinstance_int ts then ts
      else (case ts of
              PStr s \<Rightarrow> (case strptime_timestamp rt s of None \<Rightarrow> PNone | Some t \<Rightarrow> PInt t)
            | _ \<Rightarrow> PNone))"

text \<open>The dict the permissive decode builds from the raw dict \<open>d\<close>, written out.\<close>

definition fallback_time :: "runtime \<Rightarrow> (string \<times> pyval) list \<Rightarrow> pyval" where
  "fallback_time rt d =
     (if truthy (dget d ''time_unix'' PNone) then dget d ''time_unix'' PNone
      else parse_unix_val rt (dget d ''unix_timestamp'' PNone))"

definition fallback_base :: "(string \<times> pyval) list \<Rightarrow> (string \<times> pyval) list" where
  "fallback_base d =
     [(''team1'', or_val (dget d ''team1'' PNone) (or_val (dget d ''team_1'' PNone) (PStr ''?''))),
      (''team2'', or_val (dget d ''team2'' PNone) (or_val (dget d ''team_2'' PNone) (PStr ''?''))),
      (''event'', or_val (dget d ''event'' PNone) (or_val (dget d ''match_event'' PNone) (PStr []))),
      (''region'', or_val (dget d ''region'' PNone) (PStr [])),
      (''url'', or_val (dget d ''url'' PNone) (or_val (dget d ''match_page'' PNone) (PStr [])))]"

definition fallback_fields ::
  "runtime \<Rightarrow> (string \<times> pyval) list \<Rightarrow> bool option \<Rightarrow> (string \<times> pyval) list" where
  "fallback_fields rt d lf =
     (fallback_base d
      @ (if dget d ''score1'' PNone \<noteq> PNone \<and> dget d ''score2'' PNone \<noteq> PNone
         then [(''score'', PStr (py_str rt (dget d ''score1'' PNone) @ ''-''
                                 @ py_str rt (dget d ''score2'' PNone)))]
         else [])
      @ (if truthy (fallback_time rt d) then [(''time_unix'', fallback_time rt d)] else [])
      @ (case lf of None \<Rightarrow> [] | Some b \<Rightarrow> [(''live'', PBool b)]))"

text \<open>
  What the filter is claimed to compute. The text of a field is its string, and the empty
  string when the field is absent or falsy; a record is searchable when each of its four
  text fields is a string or falsy, as in a NormalizedMatch.
\<close>

definition text_of :: "pyval \<Rightarrow> string" where
  "text_of v = (case v of PStr s \<Rightarrow> s | _ \<Rightarrow> [])"

definition contains_ci :: "string \<Rightarrow> string \<Rightarrow> bool" where
  "contains_ci needle s = sublist (map lower_char needle) (map lower_char s)"

definition searchable :: "pyval \<Rightarrow> bool" where
  "searchable m =
     (case m of
        PDict d \<Rightarrow> list_all (\<lambda>k. isinstance_str (dget d k (PStr [])) \<or> \<not> truthy (dget d k (PStr [])))
                     [''team1'', ''team2'', ''event'', ''region'']
      | _ \<Rightarrow> False)"

definition record_matches :: "string \<Rightarrow> pyval \<Rightarrow> bool" where
  "record_matches needle m =
     (case m of
        PDict d \<Rightarrow> list_ex (\<lambda>k. contains_ci needle (text_of (dget d k (PStr []))))
                     [''team1'', ''team2'', ''event'', ''region'']
      | _ \<Rightarrow> False)"

text \<open>
  A record in canonical shape: a dict with no other keys than those of a NormalizedMatch
  (and \<open>status\<close>, which \<open>normalize_match\<close> also emits), whose team names, event, region, url
  and match id are strings and whose start time, if any, is an integer or null.
\<close>

definition canonical_record :: "pyval \<Rightarrow> bool" where
  "canonical_record m =
     (case m of
        PDict d \<Rightarrow>
          list_all (\<lambda>k. isinstance_str (dget d k PNone))
            [''team1'', ''team2'', ''event'', ''region'', ''url'', ''match_id'']
          \<and> (dget d ''time_unix'' PNone = PNone \<or> isinstance_int (dget d ''time_unix'' PNone))
          \<and> list_all (\<lambda>k. k \<in> set (canonical_fields @ [''status'', ''live''])) (map fst d)
      | _ \<Rightarrow> False)"

text \<open>
  Vocabulary for the scheduler. \<open>seconds_until\<close> is secondsUntilStart of a raw record as the
  loop computes it (\<open>None\<close> when the record is dropped, its start time is unknown, or
  \<open>int\<close> raises on it); \<open>record_key\<close> is the element of the announced set that stands for
  the id of a normalized record (\<open>None\<close> without a truthy, hashable id).
\<close>

definition seconds_until :: "runtime \<Rightarrow> int \<Rightarrow> pyval \<Rightarrow> int option" where
  "seconds_until rt now m =
     (case safe_normalize rt m None of
        Inr (PDict kvs) \<Rightarrow>
          if truthy (dget kvs ''time_unix'' PNone)
          then (case py_int (dget kvs ''time_unix'' PNone) of Inr t \<Rightarrow> Some (t - now) | Inl e \<Rightarrow> None)
          else None
      | _ \<Rightarrow> None)"

definition record_key :: "pyval \<Rightarrow> pykey option" where
  "record_key nm =
     (case nm of
        PDict kvs \<Rightarrow>
          if truthy (dget kvs ''match_id'' PNone)
          then (case py_key (dget kvs ''match_id'' PNone) of Inr k \<Rightarrow> Some k | Inl e \<Rightarrow> None)
          else None
      | _ \<Rightarrow> None)"

definition match_key :: "runtime \<Rightarrow> pyval \<Rightarrow> pykey option" where
  "match_key rt m = (case safe_normalize rt m None of Inr nm \<Rightarrow> record_key nm | Inl e \<Rightarrow> None)"

text \<open>The raw record \<open>m\<close> is a match with id \<open>k\<close> inside the lead window at time \<open>now\<close>.\<close>

definition due :: "runtime \<Rightarrow> int \<Rightarrow> int \<Rightarrow> pykey \<Rightarrow> pyval \<Rightarrow> bool" where
  "due rt lead now k m =
     (match_key rt m = Some k \<and>
      (case seconds_until rt now m of Some s \<Rightarrow> 0 \<le> s \<and> s \<le> lead * 60 | None \<Rightarrow> False))"

text \<open>A tick sees the match \<open>k\<close>: alerts are configured and the fetched list holds it, due.\<close>

definition sees :: "runtime \<Rightarrow> int \<Rightarrow> tick \<Rightarrow> pykey \<Rightarrow> bool" where
  "sees rt lead tk k =
     (channel_ready tk \<and>
      (case upcoming_records (fetched tk) of
         Inr raw \<Rightarrow> list_ex (due rt lead (clock tk) k) raw
       | Inl e \<Rightarrow> False))"

text \<open>A tick runs to its end: no exception is swallowed.\<close>

definition completes :: "runtime \<Rightarrow> int \<Rightarrow> tick \<Rightarrow> sched \<Rightarrow> bool" where
  "completes rt lead tk st = (channel_ready tk \<and> snd (announce_try rt lead tk st) = None)"

text \<open>The messages sent between two states, and how many of them announce the match \<open>k\<close>.\<close>

definition sent_during :: "sched \<Rightarrow> sched \<Rightarrow> (pyval \<times> embed) list" where
  "sent_during st st1 = drop (length (channel_log st)) (channel_log st1)"

definition announcements_for :: "pykey \<Rightarrow> (pyval \<times> embed) list \<Rightarrow> nat" where
  "announcements_for k ps = length (filter (\<lambda>p. record_key (fst p) = Some k) ps)"

text \<open>
  How the state may change between two moments of the scheduler: the channel log is only
  appended to, the announced set only grows, and a match id has one message among the
  appended ones if it has entered the set in between, and none otherwise.
\<close>

definition advances :: "sched \<Rightarrow> sched \<Rightarrow> bool" where
  "advances st st1 =
     (channel_log st1 = channel_log st @ sent_during st st1
      \<and> announced_ids st \<subseteq> announced_ids st1
      \<and> (\<forall>k. announcements_for k (sent_during st st1) =
               (if k \<in> announced_ids st1 \<and> k \<notin> announced_ids st then 1 else 0)))"

text \<open>
  The state \<open>Tracker.__init__\<close> starts from, and sample inputs for the concrete evaluations:
  a well-formed segment with a nested team name, and a tick that fetches the given segments
  at the given time and whose sends all succeed.
\<close>

definition initial_sched :: sched where
  "initial_sched = \<lparr>announced_ids = {}, channel_log = []\<rparr>"

definition sample_match :: "string \<Rightarrow> int \<Rightarrow> pyval" where
  "sample_match mid t =
     PDict [(''team1'', PDict [(''name'', PStr ''Sentinels'')]),
            (''team2'', PDict [(''name'', PStr ''Fnatic'')]),
            (''match_id'', PStr mid), (''time_unix'', PInt t)]"

definition sample_normalized :: "string \<Rightarrow> int \<Rightarrow> pyval" where
  "sample_normalized mid t =
     PDict [(''team1'', PStr ''Sentinels''), (''team2'', PStr ''Fnatic''), (''event'', PStr []),
            (''status'', PStr []), (''time_unix'', PInt t), (''match_id'', PStr mid),
            (''url'', PStr (''https://www.vlr.gg/'' @ mid)), (''score'', PList []), (''region'', PStr [])]"

definition sample_tick :: "pyval list \<Rightarrow> int \<Rightarrow> tick" where
  "sample_tick segs now =
     \<lparr>channel_ready = True,
      fetched = Inr (PDict [(''data'', PDict [(''segments'', PList segs)])]),
      clock = now,
      deliver = (\<lambda>emb. True)\<rparr>"

section \<open>Auxiliary facts\<close>

lemma ebind_Inr_iff: "ebind x f = Inr r \<longleftrightarrow> (\<exists>v. x = Inr v \<and> f v = Inr r)"
  by (cases x) auto

lemma py_or_pure [simp]: "py_or a (Inr b) = Inr (or_val a b)"
  by (simp add: py_or_def or_val_def)

lemma py_get_Inr_iff: "py_get t k d = Inr v \<longleftrightarrow> (\<exists>kvs. t = PDict kvs \<and> v = dget kvs k d)"
  by (cases t) auto

lemma nm_shape:
  "normalize_match rt m = Inr nm \<Longrightarrow>
   \<exists>a b c d t e f g h. nm = PDict [(''team1'',a),(''team2'',b),(''event'',c),(''status'',d),
      (''time_unix'',PInt t),(''match_id'',e),(''url'',f),(''score'',g),(''region'',h)]"
  by (auto simp: normalize_match_def ebind_Inr_iff)

lemma parse_unix_Inr: "parse_unix rt ts = Inr (parse_unix_val rt ts)"
  by (cases ts) (simp_all add: parse_unix_def parse_unix_val_def strptime_int_def split: option.splits)

lemma fallback_dict:
  "safe_normalize_fallback rt (PDict d) lf = Inr (PDict (fallback_fields rt d lf))"
  by (cases lf)
     (simp_all add: safe_normalize_fallback_def fallback_fields_def fallback_base_def fallback_time_def
        parse_unix_Inr Let_def)

lemma safe_normalize_non_dict: "\<not> is_dict m \<Longrightarrow> safe_normalize rt m lf = Inr PNone"
  by (simp add: safe_normalize_def)

lemma safe_normalize_strict_case:
  "normalize_match rt (PDict d) = Inr (PDict kvs) \<Longrightarrow>
   safe_normalize rt (PDict d) lf =
     Inr (PDict (case lf of None \<Rightarrow> kvs | Some b \<Rightarrow> AList.update ''live'' (PBool b) kvs))"
  by (cases lf) (simp_all add: safe_normalize_def safe_normalize_strict_def)

lemma safe_normalize_fallback_case:
  "normalize_match rt (PDict d) = Inl e \<Longrightarrow>
   safe_normalize rt (PDict d) lf = Inr (PDict (fallback_fields rt d lf))"
  by (simp add: safe_normalize_def safe_normalize_strict_def fallback_dict)

lemma map_of_live:
  "k \<noteq> ''live'' \<Longrightarrow>
   map_of (case lf of None \<Rightarrow> kvs | Some b \<Rightarrow> AList.update ''live'' (PBool b) kvs) k = map_of kvs k"
  by (cases lf) (simp_all add: update_conv')

lemma fallback_map_of_base:
  "k \<in> set [''team1'', ''team2'', ''event'', ''region'', ''url''] \<Longrightarrow>
   map_of (fallback_fields rt d lf) k = map_of (fallback_base d) k"
  by (auto simp: fallback_fields_def fallback_base_def map_add_def split: option.splits)

lemma nm_keys:
  "normalize_match rt m = Inr (PDict kvs) \<Longrightarrow> list_all (\<lambda>k. map_of kvs k \<noteq> None) canonical_fields"
  by (drule nm_shape) (auto simp: canonical_fields_def)

lemma nm_team:
  "normalize_match rt (PDict d) = Inr (PDict kvs) \<Longrightarrow>
   map_of kvs ''team1'' = Some (or_val (strict_name d ''team1'') (or_val (dget d ''team_1'' (PStr [])) (PStr [])))
   \<and> map_of kvs ''team2'' = Some (or_val (strict_name d ''team2'') (or_val (dget d ''team_2'' (PStr [])) (PStr [])))"
  by (auto simp: normalize_match_def ebind_Inr_iff py_get_Inr_iff strict_name_def py_or_def or_val_def)

lemma nm_score:
  "normalize_match rt (PDict d) = Inr (PDict kvs) \<Longrightarrow>
   map_of kvs ''score'' = Some (or_val (dget d ''score'' PNone) (dget d ''maps'' (PList [])))"
  by (auto simp: normalize_match_def ebind_Inr_iff py_get_Inr_iff py_or_def or_val_def)

lemma truthy_dget_default: "truthy (dget d k (PStr [])) = truthy (dget d k PNone)"
  by (simp add: dget_def split: option.splits)

lemma py_lower_text:
  "isinstance_str v \<or> \<not> truthy v \<Longrightarrow> py_lower (or_val v (PStr [])) = Inr (map lower_char (text_of v))"
  by (cases v) (auto simp: or_val_def text_of_def)

lemma any_field_text:
  "list_all (\<lambda>v. isinstance_str v \<or> \<not> truthy v) fs \<Longrightarrow>
   any_field n fs = Inr (list_ex (\<lambda>v. sublist n (map lower_char (text_of v))) fs)"
  by (induction fs) (simp_all add: py_lower_text)

lemma match_ok_searchable:
  "searchable m \<Longrightarrow> match_ok (map lower_char needle) m = Inr (record_matches needle m)"
proof (cases m)
  case (PDict d)
  assume "searchable m"
  with PDict have ok: "list_all (\<lambda>v. isinstance_str v \<or> \<not> truthy v)
      [dget d ''event'' (PStr []), dget d ''team1'' (PStr []), dget d ''team2'' (PStr []), dget d ''region'' (PStr [])]"
    by (auto simp: searchable_def)
  show ?thesis
    unfolding PDict match_ok_def
    by (simp add: any_field_text [OF ok] record_matches_def contains_ci_def del: any_field.simps) blast
qed (simp_all add: searchable_def)

lemma filter_ok_searchable:
  "list_all searchable ms \<Longrightarrow>
   filter_ok (map lower_char needle) ms = Inr (filter (record_matches needle) ms)"
  by (induction ms) (simp_all add: match_ok_searchable)

lemma record_matches_empty: "searchable m \<Longrightarrow> record_matches [] m"
  by (cases m) (simp_all add: searchable_def record_matches_def contains_ci_def)

lemma nm_fails_flat_team:
  "\<not> is_dict (dget d ''team1'' (PDict [])) \<Longrightarrow> \<exists>e. normalize_match rt (PDict d) = Inl e"
  by (cases "dget d ''team1'' (PDict [])") (simp_all add: normalize_match_def)

lemma or_val_simps:
  "or_val PNone c = c"
  "or_val (or_val a c) c = or_val a c"
  "or_val a (or_val b c) = or_val (or_val a b) c"
  "truthy c \<Longrightarrow> truthy (or_val a c)"
  by (simp_all add: or_val_def)

lemma dget_absent: "map_of d k = None \<Longrightarrow> dget d k x = x"
  by (simp add: dget_def)

lemma dget_present: "map_of d k = Some v \<Longrightarrow> dget d k x = v"
  by (simp add: dget_def)

lemma dget_Nil: "dget [] k x = x"
  by (simp add: dget_def)

lemma dget_Cons: "dget ((k, v) # kvs) k' x = (if k = k' then v else dget kvs k' x)"
  by (simp add: dget_def)

lemma dget_fallback_base:
  "k \<in> set [''team1'', ''team2'', ''event'', ''region'', ''url''] \<Longrightarrow>
   dget (fallback_fields rt d lf) k x = dget (fallback_base d) k x"
  by (simp only: dget_def fallback_map_of_base)

lemma str_not_dict: "isinstance_str v \<Longrightarrow> \<not> is_dict v"
  by (cases v) simp_all

lemma fallback_map_of_other:
  "k \<notin> set [''team1'', ''team2'', ''event'', ''region'', ''url'', ''score'', ''time_unix'', ''live''] \<Longrightarrow>
   map_of (fallback_fields rt d lf) k = None"
  by (cases lf) (auto simp: fallback_fields_def fallback_base_def map_add_def split: option.splits)

lemma fallback_map_of_time:
  "map_of (fallback_fields rt d lf) ''time_unix'' =
     (if truthy (fallback_time rt d) then Some (fallback_time rt d) else None)"
  by (cases lf) (auto simp: fallback_fields_def fallback_base_def map_add_def split: option.splits)

lemma fallback_time_idem:
  "fallback_time rt (fallback_fields rt d lf) = (if truthy (fallback_time rt d) then fallback_time rt d else PNone)"
proof -
  have u: "dget (fallback_fields rt d lf) ''unix_timestamp'' PNone = PNone"
    by (simp add: dget_absent fallback_map_of_other)
  have t: "dget (fallback_fields rt d lf) ''time_unix'' PNone =
      (if truthy (fallback_time rt d) then fallback_time rt d else PNone)"
    by (simp add: dget_def fallback_map_of_time)
  show ?thesis
    unfolding fallback_time_def [of rt "fallback_fields rt d lf"] u t
    by (simp add: parse_unix_val_def)
qed

lemma fallback_base_idem:
  "fallback_base (fallback_fields rt d lf) = fallback_base d"
proof -
  let ?F = "fallback_fields rt d lf"
  have o: "dget ?F ''team_1'' PNone = PNone" "dget ?F ''team_2'' PNone = PNone"
    "dget ?F ''match_event'' PNone = PNone" "dget ?F ''match_page'' PNone = PNone"
    by (simp_all add: dget_absent fallback_map_of_other)
  have b: "dget ?F ''team1'' PNone = or_val (dget d ''team1'' PNone) (or_val (dget d ''team_1'' PNone) (PStr ''?''))"
    "dget ?F ''team2'' PNone = or_val (dget d ''team2'' PNone) (or_val (dget d ''team_2'' PNone) (PStr ''?''))"
    "dget ?F ''event'' PNone = or_val (dget d ''event'' PNone) (or_val (dget d ''match_event'' PNone) (PStr []))"
    "dget ?F ''region'' PNone = or_val (dget d ''region'' PNone) (PStr [])"
    "dget ?F ''url'' PNone = or_val (dget d ''url'' PNone) (or_val (dget d ''match_page'' PNone) (PStr []))"
    by (simp_all add: dget_fallback_base) (simp_all add: fallback_base_def dget_Nil dget_Cons)
  show ?thesis
    unfolding fallback_base_def [of ?F] o b
    by (simp add: fallback_base_def or_val_simps)
qed

lemma fallback_fields_idem:
  assumes "dget d ''score1'' PNone = PNone \<or> dget d ''score2'' PNone = PNone"
  shows "fallback_fields rt (fallback_fields rt d lf) lf = fallback_fields rt d lf"
proof -
  let ?F = "fallback_fields rt d lf"
  have s: "dget ?F ''score1'' PNone = PNone" "dget ?F ''score2'' PNone = PNone"
    by (simp_all add: dget_absent fallback_map_of_other)
  show ?thesis
    unfolding fallback_fields_def [of rt ?F] s fallback_base_idem fallback_time_idem
    using assms by (auto simp: fallback_fields_def)
qed

lemma fallback_team1_flat:
  assumes "isinstance_str (dget d ''team1'' PNone)" "\<not> is_dict (dget d ''team_1'' PNone)"
  shows "\<not> is_dict (dget (fallback_fields rt d lf) ''team1'' (PDict []))"
proof -
  have "dget (fallback_fields rt d lf) ''team1'' (PDict []) =
          or_val (dget d ''team1'' PNone) (or_val (dget d ''team_1'' PNone) (PStr ''?''))"
    by (simp add: dget_fallback_base) (simp add: fallback_base_def dget_Nil dget_Cons)
  with assms show ?thesis
    by (cases "dget d ''team1'' PNone"; cases "dget d ''team_1'' PNone") (simp_all add: or_val_def)
qed

lemma normalize_twice:
  assumes "isinstance_str (dget d ''team1'' PNone)" "\<not> is_dict (dget d ''team_1'' PNone)"
    and "dget d ''score1'' PNone = PNone \<or> dget d ''score2'' PNone = PNone"
  shows "safe_normalize rt (PDict d) lf = Inr (PDict (fallback_fields rt d lf))
       \<and> safe_normalize rt (PDict (fallback_fields rt d lf)) lf = Inr (PDict (fallback_fields rt d lf))"
proof -
  have "\<not> is_dict (dget d ''team1'' (PDict []))"
    using assms(1) by (cases "map_of d ''team1''") (auto simp: dget_def dest: str_not_dict)
  then obtain e where e: "normalize_match rt (PDict d) = Inl e"
    using nm_fails_flat_team by blast
  obtain e' where e': "normalize_match rt (PDict (fallback_fields rt d lf)) = Inl e'"
    using nm_fails_flat_team [OF fallback_team1_flat [OF assms(1,2)]] by blast
  show ?thesis
    by (simp add: safe_normalize_fallback_case [OF e] safe_normalize_fallback_case [OF e']
        fallback_fields_idem [OF assms(3)])
qed

lemma canonical_absent:
  assumes "canonical_record (PDict d)"
    and "k \<notin> set (canonical_fields @ [''status'', ''live''])"
  shows "dget d k x = x"
proof -
  have "\<forall>k' \<in> set (map fst d). k' \<in> set (canonical_fields @ [''status'', ''live''])"
    using assms(1) by (simp add: canonical_record_def list_all_iff)
  with assms(2) have "k \<notin> fst ` set d" by auto
  then have "map_of d k = None" by (simp add: map_of_eq_None_iff)
  then show ?thesis by (simp add: dget_def)
qed

lemma safe_normalize_cases:
  "safe_normalize rt m lf = Inr PNone \<or> (\<exists>kvs. safe_normalize rt m lf = Inr (PDict kvs))"
proof (cases m)
  case (PDict d)
  show ?thesis
  proof (cases "normalize_match rt (PDict d)")
    case (Inl e)
    with PDict show ?thesis by (simp add: safe_normalize_fallback_case)
  next
    case (Inr nm)
    then obtain kvs where "nm = PDict kvs" using nm_shape by blast
    with Inr PDict show ?thesis by (simp add: safe_normalize_strict_case)
  qed
qed (simp_all add: safe_normalize_non_dict)

lemma py_getitem_truthy:
  "truthy (dget kvs k PNone) \<Longrightarrow> py_getitem (PDict kvs) k = Inr (dget kvs k PNone)"
  by (cases "map_of kvs k") (simp_all add: dget_def)

text \<open>What the loop body does once the record is normalized to a dict with a usable start time.\<close>

lemma announce_one_dropped:
  "safe_normalize rt m None = Inr PNone \<Longrightarrow> announce_one rt lead dl now st m = Inr st"
  by (simp add: announce_one_def)

lemma announce_one_no_time:
  "safe_normalize rt m None = Inr (PDict kvs) \<Longrightarrow> \<not> truthy (dget kvs ''time_unix'' PNone) \<Longrightarrow>
   announce_one rt lead dl now st m = Inr st"
  by (simp add: announce_one_def)

lemma announce_one_bad_time:
  "safe_normalize rt m None = Inr (PDict kvs) \<Longrightarrow> truthy (dget kvs ''time_unix'' PNone) \<Longrightarrow>
   py_int (dget kvs ''time_unix'' PNone) = Inl e \<Longrightarrow>
   announce_one rt lead dl now st m = Inl e"
proof -
  assume a: "safe_normalize rt m None = Inr (PDict kvs)" "truthy (dget kvs ''time_unix'' PNone)"
    "py_int (dget kvs ''time_unix'' PNone) = Inl e"
  have "kvs \<noteq> []" using a(2) by (auto simp: dget_def)
  then show ?thesis
    using a by (simp add: announce_one_def py_getitem_truthy del: py_getitem.simps)
qed

lemma announce_one_timed:
  assumes "safe_normalize rt m None = Inr (PDict kvs)"
    and "truthy (dget kvs ''time_unix'' PNone)"
    and "py_int (dget kvs ''time_unix'' PNone) = Inr t"
  shows "announce_one rt lead dl now st m =
     (if 0 \<le> t - now \<and> t - now \<le> lead * 60
      then
        ebind (if truthy (dget kvs ''match_id'' PNone)
               then ebind (py_key (dget kvs ''match_id'' PNone)) (\<lambda>k. Inr (k \<in> announced_ids st))
               else Inr False) (\<lambda>seen.
        if seen then Inr st
        else
          ebind (make_embed_from_match rt now (PDict kvs) False) (\<lambda>emb.
          if \<not> dl emb then Inl SendError
          else
            let st1 = st\<lparr>channel_log := channel_log st @ [(PDict kvs, emb)]\<rparr> in
            if truthy (dget kvs ''match_id'' PNone)
            then ebind (py_key (dget kvs ''match_id'' PNone)) (\<lambda>k. Inr (st1\<lparr>announced_ids := insert k (announced_ids st1)\<rparr>))
            else Inr st1))
      else Inr st)"
proof -
  have "kvs \<noteq> []" using assms(2) by (auto simp: dget_def)
  then show ?thesis
    using assms by (simp add: announce_one_def py_getitem_truthy Let_def del: py_getitem.simps)
qed

lemma seconds_until_SomeD:
  "seconds_until rt now m = Some s \<Longrightarrow>
   \<exists>kvs t. safe_normalize rt m None = Inr (PDict kvs) \<and> truthy (dget kvs ''time_unix'' PNone)
     \<and> py_int (dget kvs ''time_unix'' PNone) = Inr t \<and> s = t - now"
  by (auto simp: seconds_until_def split: sum.splits pyval.splits if_splits)

lemma seconds_until_timed:
  "safe_normalize rt m None = Inr (PDict kvs) \<Longrightarrow> truthy (dget kvs ''time_unix'' PNone) \<Longrightarrow>
   py_int (dget kvs ''time_unix'' PNone) = Inr t \<Longrightarrow> seconds_until rt now m = Some (t - now)"
  by (simp add: seconds_until_def)

lemma announce_one_outside:
  assumes "seconds_until rt now m = Some s" "\<not> (0 \<le> s \<and> s \<le> lead * 60)"
  shows "announce_one rt lead dl now st m = Inr st"
proof -
  obtain kvs t where k: "safe_normalize rt m None = Inr (PDict kvs)" "truthy (dget kvs ''time_unix'' PNone)"
      "py_int (dget kvs ''time_unix'' PNone) = Inr t" "s = t - now"
    using seconds_until_SomeD [OF assms(1)] by blast
  have w: "\<not> (0 \<le> t - now \<and> t - now \<le> lead * 60)"
    using assms(2) k(4) by simp
  show ?thesis
    unfolding announce_one_timed [OF k(1,2,3)] by (simp only: w if_False)
qed

lemma announce_one_inside:
  assumes "announce_one rt lead dl now st m = Inr st'"
    and "safe_normalize rt m None = Inr nm"
    and "seconds_until rt now m = Some s" "0 \<le> s" "s \<le> lead * 60"
  shows "(\<exists>emb. channel_log st' = channel_log st @ [(nm, emb)]
            \<and> announced_ids st' = (case record_key nm of None \<Rightarrow> announced_ids st
                                    | Some k \<Rightarrow> insert k (announced_ids st))
            \<and> (\<forall>k. record_key nm = Some k \<longrightarrow> k \<notin> announced_ids st))
       \<or> (\<exists>k. record_key nm = Some k \<and> k \<in> announced_ids st \<and> st' = st)"
proof -
  obtain kvs t where k: "safe_normalize rt m None = Inr (PDict kvs)" "truthy (dget kvs ''time_unix'' PNone)"
      "py_int (dget kvs ''time_unix'' PNone) = Inr t" "s = t - now"
    using seconds_until_SomeD [OF assms(3)] by blast
  have nm: "nm = PDict kvs" using assms(2) k(1) by simp
  have w: "0 \<le> t - now \<and> t - now \<le> lead * 60" using assms(4,5) k(4) by simp
  show ?thesis
  proof (cases "truthy (dget kvs ''match_id'' PNone)")
    case False
    then have rk: "record_key (PDict kvs) = None" by (simp add: record_key_def)
    show ?thesis
      using assms(1) False w unfolding announce_one_timed [OF k(1,2,3)] nm
      by (auto simp: rk ebind_Inr_iff Let_def split: if_splits)
  next
    case True
    show ?thesis
    proof (cases "py_key (dget kvs ''match_id'' PNone)")
      case (Inl e)
      then show ?thesis
        using assms(1) True w unfolding announce_one_timed [OF k(1,2,3)] by simp
    next
      case (Inr key)
      then have rk: "record_key (PDict kvs) = Some key" using True by (simp add: record_key_def)
      show ?thesis
        using assms(1) True w Inr unfolding announce_one_timed [OF k(1,2,3)] nm
        by (auto simp: rk ebind_Inr_iff Let_def split: if_splits)
    qed
  qed
qed

lemma announce_one_step:
  assumes "announce_one rt lead dl now st m = Inr st'"
  shows "st' = st \<or>
     (\<exists>nm emb s. safe_normalize rt m None = Inr nm \<and> seconds_until rt now m = Some s
        \<and> 0 \<le> s \<and> s \<le> lead * 60
        \<and> channel_log st' = channel_log st @ [(nm, emb)]
        \<and> announced_ids st' = (case record_key nm of None \<Rightarrow> announced_ids st
                                | Some k \<Rightarrow> insert k (announced_ids st))
        \<and> (\<forall>k. record_key nm = Some k \<longrightarrow> k \<notin> announced_ids st))"
proof -
  consider "safe_normalize rt m None = Inr PNone"
    | kvs where "safe_normalize rt m None = Inr (PDict kvs)" "\<not> truthy (dget kvs ''time_unix'' PNone)"
    | kvs e where "safe_normalize rt m None = Inr (PDict kvs)" "truthy (dget kvs ''time_unix'' PNone)"
        "py_int (dget kvs ''time_unix'' PNone) = Inl e"
    | kvs t where "safe_normalize rt m None = Inr (PDict kvs)" "truthy (dget kvs ''time_unix'' PNone)"
        "py_int (dget kvs ''time_unix'' PNone) = Inr t"
    using safe_normalize_cases [of rt m None]
    by (metis sum.exhaust)
  then show ?thesis
  proof cases
    case 1
    then show ?thesis using assms by (simp add: announce_one_dropped)
  next
    case 2
    then show ?thesis using assms by (simp add: announce_one_no_time)
  next
    case 3
    then show ?thesis using assms by (simp add: announce_one_bad_time)
  next
    case 4
    note su = seconds_until_timed [OF 4, of now]
    show ?thesis
    proof (cases "0 \<le> t - now \<and> t - now \<le> lead * 60")
      case False
      then show ?thesis using assms announce_one_outside [OF su, of lead dl st] by simp
    next
      case True
      then show ?thesis
        using announce_one_inside [OF assms 4(1) su] su 4(1) by auto
    qed
  qed
qed

lemma advances_refl: "advances st st"
  by (simp add: advances_def sent_during_def announcements_for_def)

lemma sent_during_append: "channel_log st1 = channel_log st @ new \<Longrightarrow> sent_during st st1 = new"
  by (simp add: sent_during_def)

lemma announcements_for_append:
  "announcements_for k (xs @ ys) = announcements_for k xs + announcements_for k ys"
  by (simp add: announcements_for_def)

lemma advances_trans:
  assumes "advances st st1" "advances st1 st2"
  shows "advances st st2"
proof -
  have l: "channel_log st2 = channel_log st @ (sent_during st st1 @ sent_during st1 st2)"
    using assms by (simp add: advances_def)
  have s: "sent_during st st2 = sent_during st st1 @ sent_during st1 st2"
    using l by (rule sent_during_append)
  show ?thesis
    unfolding advances_def s announcements_for_append
    using assms l by (auto simp: advances_def)
qed

lemma advances_sent:
  "advances st st1 \<Longrightarrow> advances st1 st2 \<Longrightarrow> sent_during st st2 = sent_during st st1 @ sent_during st1 st2"
  by (rule sent_during_append) (simp add: advances_def)

lemma announce_one_advances:
  assumes "announce_one rt lead dl now st m = Inr st1"
  shows "advances st st1"
proof -
  from announce_one_step [OF assms] consider "st1 = st"
    | nm emb where "channel_log st1 = channel_log st @ [(nm, emb)]"
        "announced_ids st1 = (case record_key nm of None \<Rightarrow> announced_ids st
                                | Some k \<Rightarrow> insert k (announced_ids st))"
        "\<forall>k. record_key nm = Some k \<longrightarrow> k \<notin> announced_ids st"
    by blast
  then show ?thesis
  proof cases
    case 1
    then show ?thesis by (simp add: advances_refl)
  next
    case 2
    have s: "sent_during st st1 = [(nm, emb)]"
      using 2(1) by (rule sent_during_append)
    show ?thesis
      unfolding advances_def s using 2
      by (cases "record_key nm") (auto simp: announcements_for_def)
  qed
qed

lemma announce_records_advances:
  "announce_records rt lead dl now st raw = (st1, err) \<Longrightarrow> advances st st1"
proof (induction raw arbitrary: st)
  case Nil
  then show ?case by (simp add: advances_refl)
next
  case (Cons m ms)
  show ?case
  proof (cases "announce_one rt lead dl now st m")
    case (Inl e)
    with Cons.prems show ?thesis by (simp add: advances_refl)
  next
    case (Inr st0)
    with Cons.prems have "announce_records rt lead dl now st0 ms = (st1, err)" by simp
    then have "advances st0 st1" by (rule Cons.IH)
    with announce_one_advances [OF Inr] show ?thesis by (rule advances_trans)
  qed
qed

lemma announce_loop_advances: "advances st (announce_loop rt lead tk st)"
proof (cases "channel_ready tk")
  case False
  then show ?thesis by (simp add: announce_loop_def advances_refl)
next
  case True
  show ?thesis
  proof (cases "upcoming_records (fetched tk)")
    case (Inl e)
    with True show ?thesis by (simp add: announce_loop_def announce_try_def advances_refl)
  next
    case (Inr raw)
    obtain st1 err where r: "announce_records rt lead (deliver tk) (clock tk) st raw = (st1, err)"
      by (cases "announce_records rt lead (deliver tk) (clock tk) st raw")
    with True Inr show ?thesis
      by (simp add: announce_loop_def announce_try_def announce_records_advances [OF r])
  qed
qed

lemma run_ticks_advances: "advances st (run_ticks rt lead tks st)"
proof (induction tks arbitrary: st)
  case Nil
  then show ?case by (simp add: advances_refl)
next
  case (Cons tk tks)
  show ?case
    using announce_loop_advances [of st rt lead tk] Cons.IH [of "announce_loop rt lead tk st"]
    by (simp add: advances_trans)
qed

lemma advances_ids_mono: "advances st st1 \<Longrightarrow> k \<in> announced_ids st \<Longrightarrow> k \<in> announced_ids st1"
  by (auto simp: advances_def)

lemma advances_sent_mono:
  "advances st st0 \<Longrightarrow> advances st0 st1 \<Longrightarrow> p \<in> set (sent_during st0 st1) \<Longrightarrow> p \<in> set (sent_during st st1)"
  by (simp add: advances_sent)

lemma advances_sent_cases:
  "advances st st0 \<Longrightarrow> advances st0 st1 \<Longrightarrow> p \<in> set (sent_during st st1) \<Longrightarrow>
   p \<in> set (sent_during st st0) \<or> p \<in> set (sent_during st0 st1)"
  by (auto simp: advances_sent)

lemma advances_new_key:
  assumes "advances st st1" "k \<in> announced_ids st1" "k \<notin> announced_ids st"
  shows "\<exists>p \<in> set (sent_during st st1). record_key (fst p) = Some k"
proof -
  have "announcements_for k (sent_during st st1) = 1"
    using assms by (simp add: advances_def)
  then have "filter (\<lambda>p. record_key (fst p) = Some k) (sent_during st st1) \<noteq> []"
    by (auto simp: announcements_for_def)
  then show ?thesis
    by (auto simp: filter_empty_conv)
qed

lemma seconds_until_cong:
  "safe_normalize rt m None = safe_normalize rt m' None \<Longrightarrow> seconds_until rt now m = seconds_until rt now m'"
  by (simp add: seconds_until_def)

lemma records_window_final:
  "announce_records rt lead dl now st raw = (st1, None) \<Longrightarrow> m \<in> set raw \<Longrightarrow>
   safe_normalize rt m None = Inr nm \<Longrightarrow> seconds_until rt now m = Some s \<Longrightarrow> 0 \<le> s \<Longrightarrow> s \<le> lead * 60 \<Longrightarrow>
   (\<exists>p \<in> set (sent_during st st1). fst p = nm) \<or> (\<exists>k. record_key nm = Some k \<and> k \<in> announced_ids st1)"
proof (induction raw arbitrary: st)
  case Nil
  then show ?case by simp
next
  case (Cons a ms)
  obtain st0 where a: "announce_one rt lead dl now st a = Inr st0"
    and r: "announce_records rt lead dl now st0 ms = (st1, None)"
    using Cons.prems(1) by (cases "announce_one rt lead dl now st a") auto
  note adv0 = announce_one_advances [OF a]
  note adv1 = announce_records_advances [OF r]
  show ?case
  proof (cases "m = a")
    case True
    from announce_one_inside [OF a [folded True] Cons.prems(3,4,5,6)]
    show ?thesis
    proof
      assume "\<exists>emb. channel_log st0 = channel_log st @ [(nm, emb)]
            \<and> announced_ids st0 = (case record_key nm of None \<Rightarrow> announced_ids st
                                    | Some k \<Rightarrow> insert k (announced_ids st))
            \<and> (\<forall>k. record_key nm = Some k \<longrightarrow> k \<notin> announced_ids st)"
      then obtain emb where "channel_log st0 = channel_log st @ [(nm, emb)]" by blast
      then have "sent_during st st0 = [(nm, emb)]" by (rule sent_during_append)
      then have "(nm, emb) \<in> set (sent_during st st1)"
        using advances_sent [OF adv0 adv1] by simp
      then show ?thesis by force
    next
      assume "\<exists>k. record_key nm = Some k \<and> k \<in> announced_ids st \<and> st0 = st"
      then show ?thesis
        using advances_ids_mono [OF adv0] advances_ids_mono [OF adv1] by blast
    qed
  next
    case False
    then have "m \<in> set ms" using Cons.prems(2) by simp
    from Cons.IH [OF r this Cons.prems(3,4,5,6)]
    show ?thesis
      using advances_sent_mono [OF adv0 adv1] by blast
  qed
qed

lemma records_sent_window:
  "announce_records rt lead dl now st raw = (st1, err) \<Longrightarrow> p \<in> set (sent_during st st1) \<Longrightarrow>
   \<exists>m \<in> set raw. \<exists>s. safe_normalize rt m None = Inr (fst p) \<and> seconds_until rt now m = Some s
      \<and> 0 \<le> s \<and> s \<le> lead * 60"
proof (induction raw arbitrary: st)
  case Nil
  then show ?case by (simp add: sent_during_def)
next
  case (Cons a ms)
  show ?case
  proof (cases "announce_one rt lead dl now st a")
    case (Inl e)
    with Cons.prems show ?thesis by (simp add: sent_during_def)
  next
    case (Inr st0)
    with Cons.prems(1) have r: "announce_records rt lead dl now st0 ms = (st1, err)" by simp
    note adv0 = announce_one_advances [OF Inr]
    note adv1 = announce_records_advances [OF r]
    from advances_sent_cases [OF adv0 adv1 Cons.prems(2)]
    show ?thesis
    proof
      assume p: "p \<in> set (sent_during st st0)"
      from announce_one_step [OF Inr] show ?thesis
      proof
        assume "st0 = st"
        with p show ?thesis by (simp add: sent_during_def)
      next
        assume "\<exists>nm emb s. safe_normalize rt a None = Inr nm \<and> seconds_until rt now a = Some s
          \<and> 0 \<le> s \<and> s \<le> lead * 60
          \<and> channel_log st0 = channel_log st @ [(nm, emb)]
          \<and> announced_ids st0 = (case record_key nm of None \<Rightarrow> announced_ids st
                                | Some k \<Rightarrow> insert k (announced_ids st))
          \<and> (\<forall>k. record_key nm = Some k \<longrightarrow> k \<notin> announced_ids st)"
        then obtain nm emb s where n: "safe_normalize rt a None = Inr nm" "seconds_until rt now a = Some s"
          "0 \<le> s" "s \<le> lead * 60" "channel_log st0 = channel_log st @ [(nm, emb)]"
          by blast
        have "sent_during st st0 = [(nm, emb)]" using n(5) by (rule sent_during_append)
        with p have "fst p = nm" by simp
        with n show ?thesis by auto
      qed
    next
      assume "p \<in> set (sent_during st0 st1)"
      from Cons.IH [OF r this] show ?thesis by auto
    qed
  qed
qed

lemma records_complete_due:
  assumes "announce_records rt lead dl now st raw = (st1, None)" "m \<in> set raw" "due rt lead now k m"
  shows "k \<in> announced_ids st1"
proof -
  obtain nm where nm: "safe_normalize rt m None = Inr nm" "record_key nm = Some k"
    using assms(3) by (auto simp: due_def match_key_def split: sum.splits)
  obtain s where s: "seconds_until rt now m = Some s" "0 \<le> s" "s \<le> lead * 60"
    using assms(3) by (auto simp: due_def split: option.splits)
  from records_window_final [OF assms(1,2) nm(1) s]
  show ?thesis
  proof
    assume "\<exists>p \<in> set (sent_during st st1). fst p = nm"
    then obtain p where p: "p \<in> set (sent_during st st1)" "record_key (fst p) = Some k"
      using nm(2) by auto
    have a: "advances st st1" using assms(1) by (rule announce_records_advances)
    have "announcements_for k (sent_during st st1) \<noteq> 0"
      using p by (auto simp: announcements_for_def filter_empty_conv)
    with a show ?thesis
      by (auto simp: advances_def split: if_splits)
  next
    assume "\<exists>k. record_key nm = Some k \<and> k \<in> announced_ids st1"
    with nm(2) show ?thesis by simp
  qed
qed

lemma completes_records:
  assumes "completes rt lead tk st"
  shows "\<exists>raw. upcoming_records (fetched tk) = Inr raw \<and>
     announce_records rt lead (deliver tk) (clock tk) st raw = (announce_loop rt lead tk st, None)"
proof (cases "upcoming_records (fetched tk)")
  case (Inl e)
  with assms show ?thesis by (simp add: completes_def announce_try_def)
next
  case (Inr raw)
  obtain st1 err where r: "announce_records rt lead (deliver tk) (clock tk) st raw = (st1, err)"
    by (cases "announce_records rt lead (deliver tk) (clock tk) st raw")
  with assms Inr show ?thesis
    by (simp add: completes_def announce_try_def announce_loop_def)
qed

lemma ready_records:
  assumes "channel_ready tk" "upcoming_records (fetched tk) = Inr raw"
  shows "\<exists>err. announce_records rt lead (deliver tk) (clock tk) st raw = (announce_loop rt lead tk st, err)"
proof -
  obtain st1 err where r: "announce_records rt lead (deliver tk) (clock tk) st raw = (st1, err)"
    by (cases "announce_records rt lead (deliver tk) (clock tk) st raw")
  with assms show ?thesis
    by (simp add: announce_try_def announce_loop_def)
qed

lemma tick_complete_due:
  assumes "completes rt lead tk st" "sees rt lead tk k"
  shows "k \<in> announced_ids (announce_loop rt lead tk st)"
proof -
  obtain raw where raw: "upcoming_records (fetched tk) = Inr raw"
    "announce_records rt lead (deliver tk) (clock tk) st raw = (announce_loop rt lead tk st, None)"
    using completes_records [OF assms(1)] by blast
  obtain m where m: "m \<in> set raw" "due rt lead (clock tk) k m"
    using assms(2) raw(1) by (auto simp: sees_def list_ex_iff)
  show ?thesis
    using records_complete_due [OF raw(2) m] .
qed

lemma sample_normalize:
  "mid \<noteq> [] \<Longrightarrow> safe_normalize sample_runtime (sample_match mid t) None = Inr (sample_normalized mid t)"
  by (simp add: safe_normalize_def safe_normalize_strict_def normalize_match_def sample_match_def
      sample_normalized_def dget_def or_val_def)

lemma sample_upcoming: "upcoming_records (fetched (sample_tick segs now)) = Inr segs"
  by (simp add: sample_tick_def upcoming_records_def get_upcoming_def dget_def or_val_def)

section \<open>Segment extraction\<close>

text \<open>
  C10. The claim: for every payload, the extraction returns an empty list rather than
  raising when \<open>data\<close> is absent, \<open>segments\<close> is absent, or either is null. The payload
  \<open>{"data": null}\<close> shows the missed case: the default \<open>{}\<close> only replaces an absent
  key, so \<open>None.get\<close> raises AttributeError, in \<open>get_upcoming\<close> and in \<open>get_live\<close> alike.
\<close>

theorem get_upcoming_null_data_raises:
  "get_upcoming (Inr (PDict [(''data'', PNone)])) = Inl AttributeError
   \<and> get_live (Inr (PDict [(''data'', PNone)])) = Inl AttributeError"
  by (simp add: get_upcoming_def get_live_def dget_def)

section \<open>Shape of a normalized record\<close>

text \<open>
  C1, as amended. An input that is not a dict is dropped (\<open>None\<close>). A dict is never dropped: the
  result always carries team1, team2, event, region and url, and when the strict decode
  \<open>normalize_match\<close> succeeds it carries the whole canonical field set (with match_id,
  time_unix and score as well).
\<close>

theorem safe_normalize_shape:
  "(\<not> is_dict m \<longrightarrow> safe_normalize rt m lf = Inr PNone) \<and>
   (is_dict m \<longrightarrow>
      (\<exists>kvs. safe_normalize rt m lf = Inr (PDict kvs)
         \<and> list_all (\<lambda>k. map_of kvs k \<noteq> None) [''team1'', ''team2'', ''event'', ''region'', ''url'']
         \<and> ((\<exists>nm. normalize_match rt m = Inr nm) \<longrightarrow> has_canonical_fields (PDict kvs))))"
proof (cases m)
  case (PDict d)
  show ?thesis
  proof (cases "normalize_match rt (PDict d)")
    case (Inl e)
    have "list_all (\<lambda>k. map_of (fallback_fields rt d lf) k \<noteq> None)
            [''team1'', ''team2'', ''event'', ''region'', ''url'']"
      by (simp add: fallback_map_of_base) (simp add: fallback_base_def)
    with Inl PDict show ?thesis
      by (simp add: safe_normalize_fallback_case)
  next
    case (Inr nm)
    then obtain kvs where nm: "nm = PDict kvs" using nm_shape by blast
    have "list_all (\<lambda>k. map_of kvs k \<noteq> None) canonical_fields"
      using Inr nm nm_keys by blast
    then have "list_all (\<lambda>k. map_of (case lf of None \<Rightarrow> kvs | Some b \<Rightarrow> AList.update ''live'' (PBool b) kvs) k \<noteq> None)
        canonical_fields"
      by (simp add: canonical_fields_def map_of_live)
    with Inr nm PDict show ?thesis
      by (simp add: safe_normalize_strict_case has_canonical_fields_def canonical_fields_def)
  qed
qed (simp_all add: safe_normalize_non_dict)

theorem safe_normalize_shape_witness:
  "safe_normalize sample_runtime (PStr ''TBD'') None = Inr PNone \<and>
   (\<exists>kvs. safe_normalize sample_runtime (PDict [(''team1'', PDict [(''name'', PStr ''A'')])]) None = Inr (PDict kvs)
      \<and> list_all (\<lambda>k. map_of kvs k \<noteq> None) [''team1'', ''team2'', ''event'', ''region'', ''url'']
      \<and> has_canonical_fields (PDict kvs))"
proof -
  have "\<exists>nm. normalize_match sample_runtime (PDict [(''team1'', PDict [(''name'', PStr ''A'')])]) = Inr nm"
    by (simp add: normalize_match_def dget_def or_val_def)
  then show ?thesis
    using safe_normalize_shape [of "PStr ''TBD''" sample_runtime None]
      safe_normalize_shape [of "PDict [(''team1'', PDict [(''name'', PStr ''A'')])]" sample_runtime None]
    by simp
qed

text \<open>
  C1 as stated fails on \<open>{"team1": "A"}\<close>: the strict decode raises on the flat team name,
  and the record the permissive decode returns has no match_id, time_unix or score.
\<close>

theorem fallback_record_lacks_fields:
  "safe_normalize sample_runtime (PDict [(''team1'', PStr ''A'')]) None =
     Inr (PDict [(''team1'', PStr ''A''), (''team2'', PStr ''?''), (''event'', PStr []),
                 (''region'', PStr []), (''url'', PStr [])])
   \<and> \<not> has_canonical_fields (PDict [(''team1'', PStr ''A''), (''team2'', PStr ''?''), (''event'', PStr []),
                 (''region'', PStr []), (''url'', PStr [])])"
  by (simp add: safe_normalize_def safe_normalize_strict_def normalize_match_def dget_def
      fallback_dict fallback_fields_def fallback_base_def fallback_time_def parse_unix_val_def
      or_val_def has_canonical_fields_def canonical_fields_def)

section \<open>Normalization never raises\<close>

text \<open>
  C9. \<open>safe_normalize\<close> returns for every input value: \<open>None\<close> for everything that is not a
  dict, and for a dict the permissive decode on its own, and \<open>safe_normalize\<close> as a whole,
  return a dict; no exception leaves either of them.
\<close>

theorem safe_normalize_never_raises:
  "(\<not> is_dict m \<longrightarrow> safe_normalize rt m lf = Inr PNone) \<and>
   (is_dict m \<longrightarrow> (\<exists>kvs. safe_normalize_fallback rt m lf = Inr (PDict kvs))
                 \<and> (\<exists>kvs. safe_normalize rt m lf = Inr (PDict kvs)))"
proof (cases m)
  case (PDict d)
  show ?thesis
  proof (cases "normalize_match rt (PDict d)")
    case (Inl e)
    with PDict show ?thesis
      by (simp add: safe_normalize_fallback_case fallback_dict)
  next
    case (Inr nm)
    then obtain kvs where nm: "nm = PDict kvs" using nm_shape by blast
    with Inr PDict show ?thesis
      by (simp add: safe_normalize_strict_case fallback_dict)
  qed
qed (simp_all add: safe_normalize_non_dict)

theorem safe_normalize_never_raises_witness:
  "safe_normalize sample_runtime PNone None = Inr PNone \<and>
   (\<exists>kvs. safe_normalize_fallback sample_runtime (PDict [(''team1'', PStr ''A'')]) (Some True) = Inr (PDict kvs)) \<and>
   (\<exists>kvs. safe_normalize sample_runtime (PDict [(''team1'', PStr ''A'')]) (Some True) = Inr (PDict kvs))"
  using safe_normalize_never_raises [of PNone sample_runtime None]
    safe_normalize_never_raises [of "PDict [(''team1'', PStr ''A'')]" sample_runtime "Some True"]
  by simp

section \<open>Timestamp coercion\<close>

text \<open>
  C8. \<open>parse_unix\<close> returns for every input and never raises: \<open>None\<close> gives \<open>None\<close>, an integer
  (for Python, a bool is one) is returned unchanged, a string gives the epoch seconds that
  \<open>strptime\<close> and \<open>timestamp\<close> compute for it, or \<open>None\<close> when they raise, and every other
  shape gives \<open>None\<close>.
\<close>

theorem parse_unix_total:
  "parse_unix rt ts =
     Inr (if ts = PNone then PNone
          else if isinstance_int ts then ts
          else (case ts of
                  PStr s \<Rightarrow> (case strptime_timestamp rt s of None \<Rightarrow> PNone | Some t \<Rightarrow> PInt t)
                | _ \<Rightarrow> PNone))"
  by (cases ts) (simp_all add: parse_unix_def strptime_int_def split: option.splits)

theorem parse_unix_total_witness:
  "parse_unix sample_runtime (PInt 1700000000) = Inr (PInt 1700000000) \<and>
   parse_unix sample_runtime (PStr ''1970-01-01 00:00:10'') = Inr (PInt 10) \<and>
   parse_unix sample_runtime (PStr ''tomorrow'') = Inr PNone \<and>
   parse_unix sample_runtime (PList [PInt 5]) = Inr PNone \<and>
   parse_unix sample_runtime PNone = Inr PNone"
  using parse_unix_total [of sample_runtime "PInt 1700000000"]
    parse_unix_total [of sample_runtime "PStr ''1970-01-01 00:00:10''"]
    parse_unix_total [of sample_runtime "PStr ''tomorrow''"]
    parse_unix_total [of sample_runtime "PList [PInt 5]"]
    parse_unix_total [of sample_runtime PNone]
  by (simp add: sample_runtime_def)

section \<open>The default of a missing team name\<close>

text \<open>
  C2, as amended. A dict is never dropped. When the strict decode fails, a side whose
  \<open>team1\<close> and \<open>team_1\<close> (respectively \<open>team2\<close> and \<open>team_2\<close>) are absent or falsy comes out as
  \<open>"?"\<close>. When the strict decode succeeds, a side without a truthy nested name and without a
  truthy \<open>team_1\<close> (respectively \<open>team_2\<close>) comes out as the empty string.
\<close>

theorem missing_team_default:
  "\<exists>kvs. safe_normalize rt (PDict d) lf = Inr (PDict kvs) \<and>
     ((\<forall>nm. normalize_match rt (PDict d) \<noteq> Inr nm) \<and>
        \<not> truthy (dget d ''team1'' PNone) \<and> \<not> truthy (dget d ''team_1'' PNone)
        \<longrightarrow> map_of kvs ''team1'' = Some (PStr ''?'')) \<and>
     ((\<forall>nm. normalize_match rt (PDict d) \<noteq> Inr nm) \<and>
        \<not> truthy (dget d ''team2'' PNone) \<and> \<not> truthy (dget d ''team_2'' PNone)
        \<longrightarrow> map_of kvs ''team2'' = Some (PStr ''?'')) \<and>
     ((\<exists>nm. normalize_match rt (PDict d) = Inr nm) \<and>
        \<not> truthy (strict_name d ''team1'') \<and> \<not> truthy (dget d ''team_1'' PNone)
        \<longrightarrow> map_of kvs ''team1'' = Some (PStr [])) \<and>
     ((\<exists>nm. normalize_match rt (PDict d) = Inr nm) \<and>
        \<not> truthy (strict_name d ''team2'') \<and> \<not> truthy (dget d ''team_2'' PNone)
        \<longrightarrow> map_of kvs ''team2'' = Some (PStr []))"
proof (cases "normalize_match rt (PDict d)")
  case (Inl e)
  have "map_of (fallback_fields rt d lf) ''team1'' =
          Some (or_val (dget d ''team1'' PNone) (or_val (dget d ''team_1'' PNone) (PStr ''?'')))"
    and "map_of (fallback_fields rt d lf) ''team2'' =
          Some (or_val (dget d ''team2'' PNone) (or_val (dget d ''team_2'' PNone) (PStr ''?'')))"
    by (simp_all add: fallback_map_of_base) (simp_all add: fallback_base_def)
  with Inl show ?thesis
    by (simp add: safe_normalize_fallback_case or_val_def)
next
  case (Inr nm)
  then obtain kvs where nm: "nm = PDict kvs" using nm_shape by blast
  have "map_of (case lf of None \<Rightarrow> kvs | Some b \<Rightarrow> AList.update ''live'' (PBool b) kvs) ''team1''
          = Some (or_val (strict_name d ''team1'') (or_val (dget d ''team_1'' (PStr [])) (PStr [])))"
    and "map_of (case lf of None \<Rightarrow> kvs | Some b \<Rightarrow> AList.update ''live'' (PBool b) kvs) ''team2''
          = Some (or_val (strict_name d ''team2'') (or_val (dget d ''team_2'' (PStr [])) (PStr [])))"
    using nm_team [of rt d kvs] Inr nm by (simp_all add: map_of_live)
  with Inr nm show ?thesis
    by (simp add: safe_normalize_strict_case or_val_def truthy_dget_default)
qed

theorem missing_team_default_witness:
  "(\<exists>kvs. safe_normalize sample_runtime (PDict [(''team2'', PStr ''B'')]) None = Inr (PDict kvs) \<and>
      map_of kvs ''team1'' = Some (PStr ''?'')) \<and>
   (\<exists>kvs. safe_normalize sample_runtime (PDict [(''team2'', PDict [(''name'', PStr ''B'')])]) None = Inr (PDict kvs) \<and>
      map_of kvs ''team1'' = Some (PStr []))"
proof -
  have a: "\<forall>nm. normalize_match sample_runtime (PDict [(''team2'', PStr ''B'')]) \<noteq> Inr nm"
    by (simp add: normalize_match_def dget_def or_val_def)
  have b: "\<exists>nm. normalize_match sample_runtime (PDict [(''team2'', PDict [(''name'', PStr ''B'')])]) = Inr nm"
    by (simp add: normalize_match_def dget_def or_val_def)
  show ?thesis
    using a b missing_team_default [of sample_runtime "[(''team2'', PStr ''B'')]" None]
      missing_team_default [of sample_runtime "[(''team2'', PDict [(''name'', PStr ''B'')])]" None]
    by (auto simp: dget_def strict_name_def)
qed

text \<open>
  C2 as stated fails on the empty dict: the strict decode succeeds and both team names are
  the empty string, not \<open>"?"\<close>.
\<close>

theorem missing_team_strict_is_empty:
  "safe_normalize sample_runtime (PDict []) None =
     Inr (PDict [(''team1'', PStr []), (''team2'', PStr []), (''event'', PStr []), (''status'', PStr []),
                 (''time_unix'', PInt 0), (''match_id'', PStr []), (''url'', PStr []),
                 (''score'', PList []), (''region'', PStr [])])"
  by (simp add: safe_normalize_def safe_normalize_strict_def normalize_match_def dget_def or_val_def)

section \<open>The score field\<close>

text \<open>
  C3, as amended. When the strict decode succeeds, \<open>score1\<close> and \<open>score2\<close> are not read: the
  score is the input's \<open>score\<close> if that is truthy, and its \<open>maps\<close> (default: the empty list)
  otherwise, unchanged. When the strict decode fails, the score is \<open>"{score1}-{score2}"\<close> if
  both are present and not null, and otherwise no score field is set.
\<close>

theorem score_rules:
  "\<exists>kvs. safe_normalize rt (PDict d) lf = Inr (PDict kvs) \<and>
     ((\<exists>nm. normalize_match rt (PDict d) = Inr nm)
        \<longrightarrow> map_of kvs ''score'' = Some (or_val (dget d ''score'' PNone) (dget d ''maps'' (PList [])))) \<and>
     ((\<forall>nm. normalize_match rt (PDict d) \<noteq> Inr nm) \<and>
        dget d ''score1'' PNone \<noteq> PNone \<and> dget d ''score2'' PNone \<noteq> PNone
        \<longrightarrow> map_of kvs ''score'' =
              Some (PStr (py_str rt (dget d ''score1'' PNone) @ ''-'' @ py_str rt (dget d ''score2'' PNone)))) \<and>
     ((\<forall>nm. normalize_match rt (PDict d) \<noteq> Inr nm) \<and>
        (dget d ''score1'' PNone = PNone \<or> dget d ''score2'' PNone = PNone)
        \<longrightarrow> map_of kvs ''score'' = None)"
proof (cases "normalize_match rt (PDict d)")
  case (Inl e)
  have "map_of (fallback_fields rt d lf) ''score'' =
          (if dget d ''score1'' PNone \<noteq> PNone \<and> dget d ''score2'' PNone \<noteq> PNone
           then Some (PStr (py_str rt (dget d ''score1'' PNone) @ ''-'' @ py_str rt (dget d ''score2'' PNone)))
           else None)"
    by (cases lf) (auto simp: fallback_fields_def fallback_base_def map_add_def)
  with Inl show ?thesis
    by (auto simp: safe_normalize_fallback_case)
next
  case (Inr nm)
  then obtain kvs where nm: "nm = PDict kvs" using nm_shape by blast
  have "map_of (case lf of None \<Rightarrow> kvs | Some b \<Rightarrow> AList.update ''live'' (PBool b) kvs) ''score''
          = Some (or_val (dget d ''score'' PNone) (dget d ''maps'' (PList [])))"
    using nm_score [of rt d kvs] Inr nm by (simp add: map_of_live)
  with Inr nm show ?thesis
    by (simp add: safe_normalize_strict_case)
qed

theorem score_rules_witness:
  "(\<exists>kvs. safe_normalize sample_runtime
            (PDict [(''team1'', PStr ''A''), (''score1'', PStr ''2''), (''score2'', PInt 1)]) None = Inr (PDict kvs) \<and>
      map_of kvs ''score'' = Some (PStr ''2-1'')) \<and>
   (\<exists>kvs. safe_normalize sample_runtime (PDict [(''score'', PStr ''13-11'')]) None = Inr (PDict kvs) \<and>
      map_of kvs ''score'' = Some (PStr ''13-11'')) \<and>
   (\<exists>kvs. safe_normalize sample_runtime (PDict [(''team1'', PStr ''A''), (''score'', PStr ''13-11'')]) None = Inr (PDict kvs) \<and>
      map_of kvs ''score'' = None)"
proof -
  have a: "\<forall>nm. normalize_match sample_runtime
      (PDict [(''team1'', PStr ''A''), (''score1'', PStr ''2''), (''score2'', PInt 1)]) \<noteq> Inr nm"
    by (simp add: normalize_match_def dget_def or_val_def)
  have b: "\<exists>nm. normalize_match sample_runtime (PDict [(''score'', PStr ''13-11'')]) = Inr nm"
    by (simp add: normalize_match_def dget_def or_val_def)
  have c: "\<forall>nm. normalize_match sample_runtime
      (PDict [(''team1'', PStr ''A''), (''score'', PStr ''13-11'')]) \<noteq> Inr nm"
    by (simp add: normalize_match_def dget_def or_val_def)
  have s: "str_of_int 1 = ''1''"
    by code_simp
  show ?thesis
    using a b c
      score_rules [of sample_runtime "[(''team1'', PStr ''A''), (''score1'', PStr ''2''), (''score2'', PInt 1)]" None]
      score_rules [of sample_runtime "[(''score'', PStr ''13-11'')]" None]
      score_rules [of sample_runtime "[(''team1'', PStr ''A''), (''score'', PStr ''13-11'')]" None]
    by (auto simp: dget_def or_val_def s)
qed

text \<open>
  C3 as stated fails on \<open>{"score1": 1, "score2": 2}\<close>: the strict decode succeeds and the
  score is the empty list of maps, not \<open>"1-2"\<close>.
\<close>

theorem explicit_scores_ignored_by_strict:
  "safe_normalize sample_runtime (PDict [(''score1'', PInt 1), (''score2'', PInt 2)]) None =
     Inr (PDict [(''team1'', PStr []), (''team2'', PStr []), (''event'', PStr []), (''status'', PStr []),
                 (''time_unix'', PInt 0), (''match_id'', PStr []), (''url'', PStr []),
                 (''score'', PList []), (''region'', PStr [])])"
  by (simp add: safe_normalize_def safe_normalize_strict_def normalize_match_def dget_def or_val_def)

section \<open>Keyword filter\<close>

text \<open>
  C7. On a list of records whose team1, team2, event and region are strings (or absent or
  falsy), \<open>filter_matches\<close> returns exactly the records in which the lower-cased needle is a
  substring of at least one of the four lower-cased fields, in the input order and as often
  as they occur; with the empty needle it returns the whole list.
\<close>

theorem filter_matches_exact:
  "list_all searchable ms \<Longrightarrow>
   filter_matches ms needle = Inr (filter (record_matches needle) ms)
   \<and> filter_matches ms [] = Inr ms"
proof -
  assume a: "list_all searchable ms"
  have "filter (record_matches []) ms = ms"
    using a by (induction ms) (simp_all add: record_matches_empty)
  then show ?thesis
    using filter_ok_searchable [OF a, of needle] filter_ok_searchable [OF a, of "[]"]
    by (simp add: filter_matches_def)
qed

theorem filter_matches_exact_witness:
  "filter_matches
     [PDict [(''team1'', PStr ''Sentinels''), (''team2'', PStr ''Fnatic''), (''event'', PStr ''Event X''), (''region'', PStr ''NA'')],
      PDict [(''team1'', PStr ''LOUD''), (''team2'', PStr ''DRX''), (''event'', PStr ''Masters''), (''region'', PNone)],
      PDict [(''team1'', PStr ''event xy''), (''team2'', PStr ''PRX'')],
      PDict [(''team1'', PStr ''Sentinels''), (''team2'', PStr ''Fnatic''), (''event'', PStr ''Event X''), (''region'', PStr ''NA'')]]
     ''Event X''
   = Inr
     [PDict [(''team1'', PStr ''Sentinels''), (''team2'', PStr ''Fnatic''), (''event'', PStr ''Event X''), (''region'', PStr ''NA'')],
      PDict [(''team1'', PStr ''event xy''), (''team2'', PStr ''PRX'')],
      PDict [(''team1'', PStr ''Sentinels''), (''team2'', PStr ''Fnatic''), (''event'', PStr ''Event X''), (''region'', PStr ''NA'')]]"
proof -
  let ?m1 = "PDict [(''team1'', PStr ''Sentinels''), (''team2'', PStr ''Fnatic''), (''event'', PStr ''Event X''), (''region'', PStr ''NA'')]"
  let ?m2 = "PDict [(''team1'', PStr ''LOUD''), (''team2'', PStr ''DRX''), (''event'', PStr ''Masters''), (''region'', PNone)]"
  let ?m3 = "PDict [(''team1'', PStr ''event xy''), (''team2'', PStr ''PRX'')]"
  have s: "list_all searchable [?m1, ?m2, ?m3, ?m1]"
    by (simp add: searchable_def dget_def)
  have r1: "record_matches ''Event X'' ?m1" by code_simp
  have r2: "\<not> record_matches ''Event X'' ?m2" by code_simp
  have r3: "record_matches ''Event X'' ?m3" by code_simp
  show ?thesis
    using filter_matches_exact [OF s, of "''Event X''"] r1 r2 r3 by simp
qed

section \<open>Normalizing a normalized record\<close>

text \<open>
  C4. For every record already in canonical shape, normalizing the result of normalization
  gives that result again: \<open>normalize(normalize(r)) = normalize(r)\<close>, with the same live hint
  in both applications.
\<close>

theorem normalize_idempotent_on_canonical:
  "canonical_record r \<Longrightarrow>
   \<exists>r1. safe_normalize rt r lf = Inr r1 \<and> safe_normalize rt r1 lf = Inr r1"
proof (cases r)
  case (PDict d)
  assume c: "canonical_record r"
  have 1: "isinstance_str (dget d ''team1'' PNone)"
    using c PDict by (simp add: canonical_record_def)
  have 2: "dget d ''team_1'' PNone = PNone" "dget d ''score1'' PNone = PNone"
    using c PDict by (simp_all add: canonical_absent canonical_fields_def)
  show ?thesis
    unfolding PDict using normalize_twice [of d rt lf] 1 2 by auto
qed (simp_all add: canonical_record_def)

theorem normalize_idempotent_on_canonical_witness:
  "safe_normalize sample_runtime
     (PDict [(''team1'', PStr ''Sentinels''), (''team2'', PStr []), (''event'', PStr ''Masters''), (''status'', PStr []),
             (''time_unix'', PInt 1700000000), (''match_id'', PStr ''4242''), (''url'', PStr []),
             (''score'', PList []), (''region'', PStr ''NA'')]) (Some False)
     = Inr (PDict [(''team1'', PStr ''Sentinels''), (''team2'', PStr ''?''), (''event'', PStr ''Masters''),
                   (''region'', PStr ''NA''), (''url'', PStr []), (''time_unix'', PInt 1700000000),
                   (''live'', PBool False)])
   \<and> safe_normalize sample_runtime
        (PDict [(''team1'', PStr ''Sentinels''), (''team2'', PStr ''?''), (''event'', PStr ''Masters''),
                   (''region'', PStr ''NA''), (''url'', PStr []), (''time_unix'', PInt 1700000000),
                   (''live'', PBool False)]) (Some False)
     = Inr (PDict [(''team1'', PStr ''Sentinels''), (''team2'', PStr ''?''), (''event'', PStr ''Masters''),
                   (''region'', PStr ''NA''), (''url'', PStr []), (''time_unix'', PInt 1700000000),
                   (''live'', PBool False)])"
proof -
  let ?r = "PDict [(''team1'', PStr ''Sentinels''), (''team2'', PStr []), (''event'', PStr ''Masters''), (''status'', PStr []),
             (''time_unix'', PInt 1700000000), (''match_id'', PStr ''4242''), (''url'', PStr []),
             (''score'', PList []), (''region'', PStr ''NA'')]"
  have c: "canonical_record ?r"
    by (simp add: canonical_record_def canonical_fields_def dget_def)
  have v: "safe_normalize sample_runtime ?r (Some False)
     = Inr (PDict [(''team1'', PStr ''Sentinels''), (''team2'', PStr ''?''), (''event'', PStr ''Masters''),
                   (''region'', PStr ''NA''), (''url'', PStr []), (''time_unix'', PInt 1700000000),
                   (''live'', PBool False)])"
    by (simp add: safe_normalize_def safe_normalize_strict_def normalize_match_def dget_def
      fallback_dict fallback_fields_def fallback_base_def fallback_time_def or_val_def)
  show ?thesis
    using normalize_idempotent_on_canonical [OF c, of sample_runtime "Some False"] v by auto
qed

section \<open>Alert deduplication\<close>

text \<open>
  C5. Start from a state in which the match id \<open>k\<close> is not announced, and run two consecutive
  ticks that both see the match \<open>k\<close> inside the lead window. Then at most one announcement
  for \<open>k\<close> is sent across the two ticks, and exactly one if a tick of the two runs to its end
  without an exception. Once \<open>k\<close> is in the announced set, no sequence of later ticks sends
  an announcement for it, and it stays in the set.
\<close>

theorem alert_dedup:
  "(k \<notin> announced_ids st \<and> sees rt lead tk1 k \<and> sees rt lead tk2 k \<longrightarrow>
      announcements_for k (sent_during st (run_ticks rt lead [tk1, tk2] st)) \<le> 1 \<and>
      (completes rt lead tk1 st \<or> completes rt lead tk2 (announce_loop rt lead tk1 st) \<longrightarrow>
         announcements_for k (sent_during st (run_ticks rt lead [tk1, tk2] st)) = 1))
   \<and> (k \<in> announced_ids st \<longrightarrow>
        announcements_for k (sent_during st (run_ticks rt lead tks st)) = 0
        \<and> k \<in> announced_ids (run_ticks rt lead tks st))"
proof -
  let ?st1 = "announce_loop rt lead tk1 st"
  let ?st2 = "announce_loop rt lead tk2 ?st1"
  have a1: "advances st ?st1" and a2: "advances ?st1 ?st2"
    by (rule announce_loop_advances)+
  have sent: "sent_during st ?st2 = sent_during st ?st1 @ sent_during ?st1 ?st2"
    using a1 a2 by (rule advances_sent)
  have c1: "announcements_for k (sent_during st ?st1) =
      (if k \<in> announced_ids ?st1 \<and> k \<notin> announced_ids st then 1 else 0)"
    using a1 by (simp add: advances_def)
  have c2: "announcements_for k (sent_during ?st1 ?st2) =
      (if k \<in> announced_ids ?st2 \<and> k \<notin> announced_ids ?st1 then 1 else 0)"
    using a2 by (simp add: advances_def)
  have total: "announcements_for k (sent_during st (run_ticks rt lead [tk1, tk2] st)) =
      (if k \<in> announced_ids ?st1 \<and> k \<notin> announced_ids st then 1 else 0)
      + (if k \<in> announced_ids ?st2 \<and> k \<notin> announced_ids ?st1 then 1 else 0)"
    by (simp add: sent announcements_for_append c1 c2)
  have mono: "k \<in> announced_ids ?st1 \<Longrightarrow> k \<in> announced_ids ?st2"
    using a2 by (rule advances_ids_mono)
  have first: "completes rt lead tk1 st \<Longrightarrow> sees rt lead tk1 k \<Longrightarrow> k \<in> announced_ids ?st1"
    by (rule tick_complete_due)
  have second: "completes rt lead tk2 ?st1 \<Longrightarrow> sees rt lead tk2 k \<Longrightarrow> k \<in> announced_ids ?st2"
    by (rule tick_complete_due)
  have later: "advances st (run_ticks rt lead tks st)"
    by (rule run_ticks_advances)
  have part2: "k \<in> announced_ids st \<longrightarrow>
        announcements_for k (sent_during st (run_ticks rt lead tks st)) = 0
        \<and> k \<in> announced_ids (run_ticks rt lead tks st)"
    using later by (auto simp: advances_def)
  have part1: "k \<notin> announced_ids st \<and> sees rt lead tk1 k \<and> sees rt lead tk2 k \<longrightarrow>
      announcements_for k (sent_during st (run_ticks rt lead [tk1, tk2] st)) \<le> 1 \<and>
      (completes rt lead tk1 st \<or> completes rt lead tk2 ?st1 \<longrightarrow>
         announcements_for k (sent_during st (run_ticks rt lead [tk1, tk2] st)) = 1)"
    unfolding total using mono first second by auto
  from part1 part2 show ?thesis by blast
qed

theorem alert_dedup_witness:
  "announcements_for (KStr ''77'')
     (sent_during initial_sched
        (run_ticks sample_runtime 30
           [sample_tick [sample_match ''77'' 2800] 1000, sample_tick [sample_match ''77'' 2800] 1600]
           initial_sched)) = 1
   \<and> announcements_for (KStr ''77'')
       (sent_during \<lparr>announced_ids = {KStr ''77''}, channel_log = []\<rparr>
          (run_ticks sample_runtime 30 [sample_tick [sample_match ''77'' 2800] 1600]
             \<lparr>announced_ids = {KStr ''77''}, channel_log = []\<rparr>)) = 0"
proof -
  have s1: "sees sample_runtime 30 (sample_tick [sample_match ''77'' 2800] 1000) (KStr ''77'')"
    by code_simp
  have s2: "sees sample_runtime 30 (sample_tick [sample_match ''77'' 2800] 1600) (KStr ''77'')"
    by code_simp
  have c1: "completes sample_runtime 30 (sample_tick [sample_match ''77'' 2800] 1000) initial_sched"
    by code_simp
  have n: "KStr ''77'' \<notin> announced_ids initial_sched"
    by (simp add: initial_sched_def)
  show ?thesis
    using s1 s2 c1 n
      alert_dedup [of "KStr ''77''" initial_sched sample_runtime 30
        "sample_tick [sample_match ''77'' 2800] 1000" "sample_tick [sample_match ''77'' 2800] 1600"]
      alert_dedup [of "KStr ''77''" "\<lparr>announced_ids = {KStr ''77''}, channel_log = []\<rparr>" sample_runtime 30 _ _
        "[sample_tick [sample_match ''77'' 2800] 1600]"]
    by simp
qed

section \<open>Lead-window boundary\<close>

text \<open>
  C6. Take a tick whose fetched list holds a record with a known start time, \<open>s\<close> seconds
  ahead. If \<open>s\<close> is exactly the lead window \<open>ALERT_LEAD_MINUTES * 60\<close> (not negative), the tick runs
  to its end and the record's id is not announced yet, then the tick sends an announcement
  built from this record (or from a record with the same id earlier in the list). If \<open>s\<close>
  is the lead window plus one, or negative, no announcement built from the record is sent.
\<close>

theorem lead_window_boundary:
  "channel_ready tk \<Longrightarrow> upcoming_records (fetched tk) = Inr raw \<Longrightarrow> m \<in> set raw \<Longrightarrow>
   safe_normalize rt m None = Inr nm \<Longrightarrow> seconds_until rt (clock tk) m = Some s \<Longrightarrow>
   (s = lead * 60 \<and> 0 \<le> lead \<and> completes rt lead tk st
      \<and> (\<forall>k. record_key nm = Some k \<longrightarrow> k \<notin> announced_ids st)
      \<longrightarrow> (\<exists>p \<in> set (sent_during st (announce_loop rt lead tk st)).
             fst p = nm \<or> (record_key nm \<noteq> None \<and> record_key (fst p) = record_key nm)))
   \<and> (s = lead * 60 + 1 \<or> s < 0
      \<longrightarrow> \<not> (\<exists>p \<in> set (sent_during st (announce_loop rt lead tk st)). fst p = nm))"
proof -
  assume ready: "channel_ready tk" and raw: "upcoming_records (fetched tk) = Inr raw"
    and m: "m \<in> set raw" and nm: "safe_normalize rt m None = Inr nm"
    and s: "seconds_until rt (clock tk) m = Some s"
  let ?st1 = "announce_loop rt lead tk st"
  obtain err where r: "announce_records rt lead (deliver tk) (clock tk) st raw = (?st1, err)"
    using ready_records [OF ready raw] by blast
  have adv: "advances st ?st1" by (rule announce_loop_advances)
  have inside: "\<exists>p \<in> set (sent_during st ?st1).
             fst p = nm \<or> (record_key nm \<noteq> None \<and> record_key (fst p) = record_key nm)"
    if h: "s = lead * 60" "0 \<le> lead" "completes rt lead tk st"
      "\<forall>k. record_key nm = Some k \<longrightarrow> k \<notin> announced_ids st"
  proof -
    have "err = None"
      using completes_records [OF h(3)] raw r by simp
    with r have r0: "announce_records rt lead (deliver tk) (clock tk) st raw = (?st1, None)" by simp
    have w: "0 \<le> s" "s \<le> lead * 60" using h(1,2) by simp_all
    from records_window_final [OF r0 m nm s w] show ?thesis
    proof
      assume "\<exists>p \<in> set (sent_during st ?st1). fst p = nm"
      then show ?thesis by blast
    next
      assume "\<exists>k. record_key nm = Some k \<and> k \<in> announced_ids ?st1"
      then obtain k where k: "record_key nm = Some k" "k \<in> announced_ids ?st1" by blast
      with h(4) have "k \<notin> announced_ids st" by simp
      from advances_new_key [OF adv k(2) this] k(1) show ?thesis by auto
    qed
  qed
  have outside: "\<not> (\<exists>p \<in> set (sent_during st ?st1). fst p = nm)"
    if h: "s = lead * 60 + 1 \<or> s < 0"
  proof
    assume "\<exists>p \<in> set (sent_during st ?st1). fst p = nm"
    then obtain p where p: "p \<in> set (sent_during st ?st1)" "fst p = nm" by blast
    from records_sent_window [OF r p(1)] obtain m' s'
      where m': "safe_normalize rt m' None = Inr (fst p)" "seconds_until rt (clock tk) m' = Some s'"
        "0 \<le> s'" "s' \<le> lead * 60"
      by blast
    have "seconds_until rt (clock tk) m' = seconds_until rt (clock tk) m"
      by (rule seconds_until_cong) (simp add: m'(1) nm p(2))
    with m'(2) s have "s' = s" by simp
    with m'(3,4) h show False by auto
  qed
  from inside outside show ?thesis by blast
qed

theorem lead_window_boundary_witness:
  "(\<exists>p \<in> set (sent_during initial_sched
        (announce_loop sample_runtime 30
           (sample_tick [sample_match ''77'' 2800, sample_match ''78'' 2801, sample_match ''79'' 999] 1000)
           initial_sched)).
      fst p = sample_normalized ''77'' 2800)
   \<and> \<not> (\<exists>p \<in> set (sent_during initial_sched
        (announce_loop sample_runtime 30
           (sample_tick [sample_match ''77'' 2800, sample_match ''78'' 2801, sample_match ''79'' 999] 1000)
           initial_sched)).
      fst p = sample_normalized ''78'' 2801)
   \<and> \<not> (\<exists>p \<in> set (sent_during initial_sched
        (announce_loop sample_runtime 30
           (sample_tick [sample_match ''77'' 2800, sample_match ''78'' 2801, sample_match ''79'' 999] 1000)
           initial_sched)).
      fst p = sample_normalized ''79'' 999)"
proof -
  let ?raw = "[sample_match ''77'' 2800, sample_match ''78'' 2801, sample_match ''79'' 999]"
  let ?tk = "sample_tick ?raw 1000"
  have ready: "channel_ready ?tk" by (simp add: sample_tick_def)
  have raw: "upcoming_records (fetched ?tk) = Inr ?raw" by (rule sample_upcoming)
  have clock: "clock ?tk = 1000" by (simp add: sample_tick_def)
  have n1: "safe_normalize sample_runtime (sample_match ''77'' 2800) None = Inr (sample_normalized ''77'' 2800)"
    and n2: "safe_normalize sample_runtime (sample_match ''78'' 2801) None = Inr (sample_normalized ''78'' 2801)"
    and n3: "safe_normalize sample_runtime (sample_match ''79'' 999) None = Inr (sample_normalized ''79'' 999)"
    by (simp_all add: sample_normalize)
  have t1: "seconds_until sample_runtime (clock ?tk) (sample_match ''77'' 2800) = Some 1800"
    and t2: "seconds_until sample_runtime (clock ?tk) (sample_match ''78'' 2801) = Some 1801"
    and t3: "seconds_until sample_runtime (clock ?tk) (sample_match ''79'' 999) = Some (- 1)"
    unfolding clock by (simp_all add: seconds_until_def sample_normalize) (simp_all add: sample_normalized_def dget_def)
  have c: "completes sample_runtime 30 ?tk initial_sched"
    by code_simp
  have k: "\<forall>k. record_key (sample_normalized ''77'' 2800) = Some k \<longrightarrow> k \<notin> announced_ids initial_sched"
    by (simp add: initial_sched_def)
  have r: "record_key (sample_normalized ''77'' 2800) = Some (KStr ''77'')"
    by (simp add: record_key_def sample_normalized_def dget_def)
  have sent: "map fst (sent_during initial_sched (announce_loop sample_runtime 30 ?tk initial_sched)) =
      [sample_normalized ''77'' 2800]"
    by code_simp
  have only: "fst p = sample_normalized ''77'' 2800"
    if "p \<in> set (sent_during initial_sched (announce_loop sample_runtime 30 ?tk initial_sched))" for p
  proof -
    from that have "fst p \<in> set (map fst (sent_during initial_sched (announce_loop sample_runtime 30 ?tk initial_sched)))"
      by simp
    then show ?thesis unfolding sent by simp
  qed
  show ?thesis
    using lead_window_boundary [OF ready raw _ n1 t1, of 30 initial_sched]
      lead_window_boundary [OF ready raw _ n2 t2, of 30 initial_sched]
      lead_window_boundary [OF ready raw _ n3 t3, of 30 initial_sched]
      c k r only
    by auto
qed

end
